theory Spec2Isabelle
  imports Complex_Main
begin

section \<open>Strings\<close>

text \<open>
  A JavaScript string is modelled by the list of its bytes in UTF-8. The searches and
  slices that the code makes all have ASCII needles (\<open>://\<close>, \<open>/\<close>, \<open>www.\<close>); on the bytes
  they find and cut the same places as on the characters, and they are defined here.
  \<open>trim\<close> and \<open>toLowerCase\<close> follow the Unicode tables of the host language; they are
  capabilities of the platform, below.
\<close>

definition startsWith :: "string \<Rightarrow> string \<Rightarrow> bool" where
  "startsWith s p = (take (length p) s = p)"

definition endsWith :: "string \<Rightarrow> string \<Rightarrow> bool" where
  "endsWith s p = (length p \<le> length s \<and> drop (length s - length p) s = p)"

fun str_includes :: "string \<Rightarrow> string \<Rightarrow> bool" where
  "str_includes [] p = (p = [])"
| "str_includes (c # cs) p = (startsWith (c # cs) p \<or> str_includes cs p)"

text \<open>\<open>s.indexOf('/')\<close>: the position of the first slash, \<open>None\<close> for \<open>-1\<close>.\<close>

fun indexOf_slash :: "string \<Rightarrow> nat option" where
  "indexOf_slash [] = None"
| "indexOf_slash (c # cs) =
     (if c = CHR ''/'' then Some 0 else map_option Suc (indexOf_slash cs))"

section \<open>External capabilities\<close>

text \<open>
  Five capabilities come from outside the repository: the public-suffix resolver
  (\<open>psl.parse\<close>), the URL parser (\<open>new URL\<close>), the regular expression engine
  (\<open>new RegExp\<close>) and the string methods \<open>trim\<close> and \<open>toLowerCase\<close>. They are parameters
  of the model. \<open>psl.parse\<close> answers with an error or with a parsed domain whose \<open>domain\<close>
  field may be null; \<open>new URL\<close> and \<open>new RegExp\<close> throw on input they cannot parse, which
  is \<open>None\<close> here.
\<close>

datatype psl_result = Psl_error | Psl_parsed "string option"

record url =
  hostname :: string
  pathname :: string

record platform =
  psl_parse :: "string \<Rightarrow> psl_result"
  new_URL :: "string \<Rightarrow> url option"
  new_RegExp :: "string \<Rightarrow> (string \<Rightarrow> bool) option"
  trim :: "string \<Rightarrow> string"
  toLowerCase :: "string \<Rightarrow> string"

section \<open>Pattern validation\<close>

text \<open>\<open>host.toLowerCase().replace(/^www\./, '')\<close>\<close>

definition normalizeLeadingWww :: "platform \<Rightarrow> string \<Rightarrow> string" where
  "normalizeLeadingWww env host =
     (let h = toLowerCase env host in if startsWith h ''www.'' then drop 4 h else h)"

definition isStrictRegisteredDomain :: "platform \<Rightarrow> string \<Rightarrow> bool" where
  "isStrictRegisteredDomain env pattern =
     (let candidate = normalizeLeadingWww env (trim env pattern) in
      if str_includes candidate ''://'' \<or> str_includes candidate ''/'' then False
      else (case psl_parse env candidate of
              Psl_error \<Rightarrow> False
            | Psl_parsed None \<Rightarrow> False
            | Psl_parsed (Some registered) \<Rightarrow>
                if registered = [] then False else candidate = registered))"

section \<open>Pattern matching\<close>

datatype js_error = TypeError | SyntaxError

text \<open>
  The body of the \<open>try\<close> block of \<open>matchesPattern\<close>: \<open>Inl\<close> is an exception that leaves
  the block, \<open>Inr\<close> a returned boolean. The pattern type is the string the caller passes.
\<close>

definition host_path_prefix_split :: "platform \<Rightarrow> string \<Rightarrow> js_error + (string \<times> string) option" where
  "host_path_prefix_split env pattern =
     (if str_includes pattern ''://'' then
        (case new_URL env pattern of
           None \<Rightarrow> Inl TypeError
         | Some patternUrl \<Rightarrow> Inr (Some (hostname patternUrl, pathname patternUrl)))
      else
        (case indexOf_slash pattern of
           None \<Rightarrow> Inr None
         | Some firstSlashIdx \<Rightarrow>
             Inr (Some (take firstSlashIdx pattern, drop firstSlashIdx pattern))))"

definition path_matches :: "string \<Rightarrow> string \<Rightarrow> bool" where
  "path_matches urlPath patternPath0 =
     (let patternPath =
            (if \<not> startsWith patternPath0 ''/'' then ''/'' @ patternPath0 else patternPath0) in
      if startsWith urlPath patternPath then True
      else if endsWith patternPath ''/'' then urlPath = butlast patternPath
      else False)"

definition matchesPattern_try :: "platform \<Rightarrow> string \<Rightarrow> string \<Rightarrow> string \<Rightarrow> js_error + bool" where
  "matchesPattern_try env url_str pattern patternType =
     (case new_URL env url_str of
        None \<Rightarrow> Inl TypeError
      | Some urlObj \<Rightarrow>
          if patternType = ''domain'' then
            (if \<not> isStrictRegisteredDomain env pattern then Inr False
             else (case psl_parse env (hostname urlObj) of
                     Psl_error \<Rightarrow> Inr False
                   | Psl_parsed None \<Rightarrow> Inr False
                   | Psl_parsed (Some urlDomain) \<Rightarrow>
                       if urlDomain = [] then Inr False
                       else Inr (urlDomain = normalizeLeadingWww env (trim env pattern))))
          else if patternType = ''host'' then
            (let urlHostNormalized = normalizeLeadingWww env (hostname urlObj) in
             case (if str_includes pattern ''://'' then
                     (case new_URL env pattern of
                        None \<Rightarrow> Inl TypeError
                      | Some patternUrl \<Rightarrow> Inr (hostname patternUrl))
                   else if str_includes pattern ''/'' then
                     Inr (takeWhile (\<lambda>c. c \<noteq> CHR ''/'') pattern)
                   else Inr pattern) of
               Inl e \<Rightarrow> Inl e
             | Inr patternHost \<Rightarrow>
                 (let patternHostNormalized = normalizeLeadingWww env patternHost in
                  if patternHostNormalized = [] then Inr False
                  else Inr (urlHostNormalized = patternHostNormalized)))
          else if patternType = ''exact_url'' then Inr (url_str = pattern)
          else if patternType = ''host_path_prefix'' then
            (let urlHostNormalized = normalizeLeadingWww env (hostname urlObj);
                 urlPath = pathname urlObj in
             case host_path_prefix_split env pattern of
               Inl e \<Rightarrow> Inl e
             | Inr None \<Rightarrow> Inr False
             | Inr (Some (patternHost, patternPath)) \<Rightarrow>
                 (let patternHostNormalized = normalizeLeadingWww env patternHost in
                  if patternHostNormalized = [] \<or> urlHostNormalized \<noteq> patternHostNormalized
                  then Inr False
                  else Inr (path_matches urlPath patternPath)))
          else if patternType = ''regex'' then
            (case new_RegExp env pattern of
               None \<Rightarrow> Inr False
             | Some re \<Rightarrow> Inr (re url_str))
          else Inr False)"

text \<open>The whole function: the outer \<open>catch\<close> turns every exception into \<open>false\<close>.\<close>

definition matchesPattern :: "platform \<Rightarrow> string \<Rightarrow> string \<Rightarrow> string \<Rightarrow> js_error + bool" where
  "matchesPattern env url_str pattern patternType =
     (case matchesPattern_try env url_str pattern patternType of
        Inl e \<Rightarrow> Inr False
      | Inr b \<Rightarrow> Inr b)"

section \<open>Numbers, optional properties and the clock\<close>

text \<open>
  A JavaScript number is a real, an infinity or NaN. The code does no arithmetic on the
  timestamps; it tests them for truthiness, and the ordering is that of \<open><=\<close>, false
  whenever NaN is involved.
\<close>

datatype js_number = NaN | Minus_Infinity | Number real | Plus_Infinity

fun js_le :: "js_number \<Rightarrow> js_number \<Rightarrow> bool" where
  "js_le NaN b = False"
| "js_le a NaN = False"
| "js_le Minus_Infinity b = True"
| "js_le a Plus_Infinity = True"
| "js_le (Number x) (Number y) = (x \<le> y)"
| "js_le a b = False"

definition truthy :: "js_number \<Rightarrow> bool" where
  "truthy n = (n \<noteq> NaN \<and> n \<noteq> Number 0)"

text \<open>
  An optional property of an object is absent, present with the value \<open>undefined\<close>, or
  present with a value. Object spread \<open>{...a, ...b}\<close> takes every property that \<open>b\<close> has,
  also one that holds \<open>undefined\<close>.
\<close>

datatype 'a property = Absent | Undefined | Present 'a

definition spread_property :: "'a property \<Rightarrow> 'a property \<Rightarrow> 'a property" where
  "spread_property a b = (case b of Absent \<Rightarrow> a | Undefined \<Rightarrow> Undefined | Present v \<Rightarrow> Present v)"

text \<open>
  \<open>now k\<close> is what the call of \<open>Date.now()\<close> returns that \<open>k\<close> earlier calls precede
  within the same operation.
\<close>

type_synonym clock = "nat \<Rightarrow> int"

section \<open>The list store\<close>

text \<open>
  The IndexedDB object store \<open>list_entries\<close>: records keyed by an auto-incremented
  \<open>id\<close>, with a unique index on \<open>(list_name, pattern_type, domain)\<close>. The store is the
  list of its records in insertion order together with the key generator. A request that
  fails aborts its transaction, so a failed write leaves the store as it was. Failures of
  the storage medium itself are outside the model.
\<close>

datatype entry_source = Backend | User | Generated

text \<open>
  The metadata: the properties that the interface names, and the further ones in \<open>other\<close>,
  each with its value in some textual rendering.
\<close>

record metadata =
  category :: "string property"
  description :: "string property"
  tags :: "string list property"
  created_at :: "js_number property"
  updated_at :: "js_number property"
  sync_version :: "js_number property"
  sync_timestamp :: "js_number property"
  other :: "(string \<times> string) list"

definition empty_metadata :: metadata where
  "empty_metadata =
     \<lparr>category = Absent, description = Absent, tags = Absent, created_at = Absent,
      updated_at = Absent, sync_version = Absent, sync_timestamp = Absent, other = []\<rparr>"

fun set_prop :: "string \<Rightarrow> string \<Rightarrow> (string \<times> string) list \<Rightarrow> (string \<times> string) list" where
  "set_prop k v [] = [(k, v)]"
| "set_prop k v ((k', v') # ps) = (if k' = k then (k, v) # ps else (k', v') # set_prop k v ps)"

definition spread :: "metadata \<Rightarrow> metadata \<Rightarrow> metadata" where
  "spread a b =
     \<lparr>category = spread_property (category a) (category b),
      description = spread_property (description a) (description b),
      tags = spread_property (tags a) (tags b),
      created_at = spread_property (created_at a) (created_at b),
      updated_at = spread_property (updated_at a) (updated_at b),
      sync_version = spread_property (sync_version a) (sync_version b),
      sync_timestamp = spread_property (sync_timestamp a) (sync_timestamp b),
      other = foldl (\<lambda>acc (k, v). set_prop k v acc) (other a) (other b)\<rparr>"

text \<open>
  \<open>Omit<ListEntry, 'id'>\<close> is \<open>new_entry\<close>; a stored record carries its id. The pattern
  type is the string found at run time. The \<open>source\<close> is optional: the tests and
  \<open>importList\<close> build entries without one.
\<close>

record new_entry =
  list_name :: string
  domain :: string
  pattern_type :: string
  source :: "entry_source option"
  metadata :: metadata

record list_entry = new_entry +
  entry_id :: nat

record store =
  entries :: "list_entry list"
  next_id :: nat

definition empty_store :: store where
  "empty_store = \<lparr>entries = [], next_id = 1\<rparr>"

definition entry_key :: "'a new_entry_scheme \<Rightarrow> string \<times> string \<times> string" where
  "entry_key e = (list_name e, pattern_type e, domain e)"

definition stored :: "new_entry \<Rightarrow> nat \<Rightarrow> list_entry" where
  "stored e i =
     \<lparr>list_name = list_name e, domain = domain e, pattern_type = pattern_type e,
      source = source e, metadata = metadata e, entry_id = i\<rparr>"

text \<open>\<open>store.add\<close>: a ConstraintError (\<open>None\<close>) when the unique index already has the key.\<close>

definition store_add :: "new_entry \<Rightarrow> store \<Rightarrow> (nat \<times> store) option" where
  "store_add e s =
     (if entry_key e \<in> set (map entry_key (entries s)) then None
      else Some (next_id s,
                 s\<lparr>entries := entries s @ [stored e (next_id s)], next_id := Suc (next_id s)\<rparr>))"

text \<open>
  \<open>store.put\<close> of a record whose id is in the store (the only use the code makes of it):
  the record is replaced, unless another record holds its key in the unique index.
\<close>

definition store_put :: "list_entry \<Rightarrow> store \<Rightarrow> store option" where
  "store_put e s =
     (if list_ex (\<lambda>x. entry_id x \<noteq> entry_id e \<and> entry_key x = entry_key e) (entries s)
      then None
      else Some (s\<lparr>entries := map (\<lambda>x. if entry_id x = entry_id e then e else x) (entries s)\<rparr>))"

datatype error =
    Invalid_domain_pattern string
  | Failed_to_create_entry
  | Entry_not_found nat
  | Failed_to_update_entry
  | Failed_to_create_bulk_entry
  | Unparseable_JSON
  | Missing_entries_array
  | Entry_not_an_object
  | Failed_to_import_list error

text \<open>
  The timestamps of a new record. \<open>entry.metadata.created_at || Date.now()\<close> reads the
  clock only when the caller's \<open>created_at\<close> is falsy; \<open>updated_at: Date.now()\<close> reads it
  next. \<open>k\<close> counts the readings made before.
\<close>

definition created_at_supplied :: "new_entry \<Rightarrow> bool" where
  "created_at_supplied entry =
     (case created_at (metadata entry) of
        Absent \<Rightarrow> False
      | Undefined \<Rightarrow> False
      | Present c \<Rightarrow> truthy c)"

definition entryWithTimestamps :: "clock \<Rightarrow> nat \<Rightarrow> new_entry \<Rightarrow> new_entry" where
  "entryWithTimestamps now k entry =
     (if created_at_supplied entry
      then entry\<lparr>metadata := (metadata entry)
             \<lparr>updated_at := Present (Number (real_of_int (now k)))\<rparr>\<rparr>
      else entry\<lparr>metadata := (metadata entry)
             \<lparr>created_at := Present (Number (real_of_int (now k))),
              updated_at := Present (Number (real_of_int (now (Suc k))))\<rparr>\<rparr>)"

definition readings_used :: "new_entry \<Rightarrow> nat" where
  "readings_used entry = (if created_at_supplied entry then 1 else 2)"

definition createListEntry :: "platform \<Rightarrow> clock \<Rightarrow> new_entry \<Rightarrow> store \<Rightarrow> (error + nat) \<times> store" where
  "createListEntry env now entry s =
     (if pattern_type entry = ''domain'' \<and> \<not> isStrictRegisteredDomain env (domain entry)
      then (Inl (Invalid_domain_pattern (domain entry)), s)
      else (case store_add (entryWithTimestamps now 0 entry) s of
              None \<Rightarrow> (Inl Failed_to_create_entry, s)
            | Some (i, s') \<Rightarrow> (Inr i, s')))"


record entry_updates =
  upd_list_name :: "string option"
  upd_domain :: "string option"
  upd_pattern_type :: "string option"
  upd_source :: "entry_source option"
  upd_metadata :: "metadata option"

definition updateListEntry ::
  "platform \<Rightarrow> clock \<Rightarrow> nat \<Rightarrow> entry_updates \<Rightarrow> store \<Rightarrow> (error + unit) \<times> store" where
  "updateListEntry env now i updates s =
     (case find (\<lambda>e. entry_id e = i) (entries s) of
        None \<Rightarrow> (Inl (Entry_not_found i), s)
      | Some entry \<Rightarrow>
          (let nextDomain = (case upd_domain updates of Some d \<Rightarrow> d | None \<Rightarrow> domain entry);
               nextPatternType =
                 (case upd_pattern_type updates of Some t \<Rightarrow> t | None \<Rightarrow> pattern_type entry)
           in
           if nextPatternType = ''domain'' \<and> \<not> isStrictRegisteredDomain env nextDomain
           then (Inl (Invalid_domain_pattern nextDomain), s)
           else
             (let updatedEntry =
                    \<lparr>list_name =
                       (case upd_list_name updates of Some l \<Rightarrow> l | None \<Rightarrow> list_name entry),
                     domain = nextDomain,
                     pattern_type = nextPatternType,
                     source = (case upd_source updates of
                                 Some src \<Rightarrow> Some src | None \<Rightarrow> source entry),
                     metadata =
                       (spread (metadata entry)
                          (case upd_metadata updates of Some m \<Rightarrow> m | None \<Rightarrow> empty_metadata))
                       \<lparr>updated_at := Present (Number (real_of_int (now 0)))\<rparr>,
                     entry_id = i\<rparr>
              in case store_put updatedEntry s of
                   None \<Rightarrow> (Inl Failed_to_update_entry, s)
                 | Some s' \<Rightarrow> (Inr (), s'))))"

definition deleteListEntry :: "nat \<Rightarrow> store \<Rightarrow> store" where
  "deleteListEntry i s = s\<lparr>entries := filter (\<lambda>e. entry_id e \<noteq> i) (entries s)\<rparr>"

definition deleteAllEntriesInList :: "string \<Rightarrow> entry_source option \<Rightarrow> store \<Rightarrow> store" where
  "deleteAllEntriesInList listName sourceFilter s =
     (case sourceFilter of
        Some src \<Rightarrow>
          s\<lparr>entries :=
              filter (\<lambda>e. \<not> (list_name e = listName \<and> source e = Some src)) (entries s)\<rparr>
      | None \<Rightarrow> s\<lparr>entries := filter (\<lambda>e. list_name e \<noteq> listName) (entries s)\<rparr>)"

definition findListEntryByPattern :: "string \<Rightarrow> string \<Rightarrow> string \<Rightarrow> store \<Rightarrow> list_entry option" where
  "findListEntryByPattern listName patternType dom_str s =
     find (\<lambda>e. entry_key e = (listName, patternType, dom_str)) (entries s)"

text \<open>
  \<open>bulkCreateListEntries\<close> stamps the entries one after the other and queues one \<open>add\<close>
  per entry in a single transaction; the first failing request aborts the transaction and
  nothing of the batch stays.
\<close>

fun stamp_all :: "clock \<Rightarrow> nat \<Rightarrow> new_entry list \<Rightarrow> new_entry list" where
  "stamp_all now k [] = []"
| "stamp_all now k (e # es) = entryWithTimestamps now k e # stamp_all now (k + readings_used e) es"

fun add_all :: "new_entry list \<Rightarrow> store \<Rightarrow> (nat list \<times> store) option" where
  "add_all [] s = Some ([], s)"
| "add_all (e # es) s =
     (case store_add e s of
        None \<Rightarrow> None
      | Some (i, s') \<Rightarrow>
          (case add_all es s' of
             None \<Rightarrow> None
           | Some (ids, s'') \<Rightarrow> Some (i # ids, s'')))"

definition bulkCreateListEntries :: "clock \<Rightarrow> new_entry list \<Rightarrow> store \<Rightarrow> (error + nat list) \<times> store" where
  "bulkCreateListEntries now es s =
     (case add_all (stamp_all now 0 es) s of
        None \<Rightarrow> (Inl Failed_to_create_bulk_entry, s)
      | Some (ids, s') \<Rightarrow> (Inr ids, s'))"

subsection \<open>Import\<close>

text \<open>
  \<open>importList\<close> receives a JSON string. \<open>json_import\<close> is what \<open>JSON.parse\<close> and the check
  of the \<open>entries\<close> array make of it. An element of the array is \<open>null\<close> (\<open>None\<close>: reading
  its \<open>domain\<close> throws) or an entry of the export format, an object with strings for
  \<open>domain\<close> and \<open>pattern_type\<close>; it may carry a \<open>source\<close> of its own, which the code never
  reads, and \<open>imp_metadata\<close> is \<open>None\<close> when \<open>entry.metadata\<close> is missing or falsy. Files
  whose entries have other values for \<open>domain\<close> or \<open>pattern_type\<close> are outside the model.
\<close>

record import_entry =
  imp_domain :: string
  imp_pattern_type :: string
  imp_source :: "entry_source option"
  imp_metadata :: "metadata option"

datatype json_import =
    Not_JSON
  | No_entries_array
  | Entries_array "import_entry option list"

definition imported_entry :: "string \<Rightarrow> import_entry \<Rightarrow> new_entry" where
  "imported_entry listName entry =
     \<lparr>list_name = listName, domain = imp_domain entry,
      pattern_type = imp_pattern_type entry, source = None,
      metadata = (case imp_metadata entry of Some m \<Rightarrow> m | None \<Rightarrow> empty_metadata)\<rparr>"

definition importList :: "clock \<Rightarrow> string \<Rightarrow> json_import \<Rightarrow> store \<Rightarrow> (error + nat) \<times> store" where
  "importList now listName importData s =
     (case importData of
        Not_JSON \<Rightarrow> (Inl (Failed_to_import_list Unparseable_JSON), s)
      | No_entries_array \<Rightarrow> (Inl (Failed_to_import_list Missing_entries_array), s)
      | Entries_array file_entries \<Rightarrow>
          (let s1 = deleteAllEntriesInList listName None s in
           if None \<in> set file_entries
           then (Inl (Failed_to_import_list Entry_not_an_object), s1)
           else
             (case bulkCreateListEntries now
                     (map (imported_entry listName) (map the file_entries)) s1 of
                (Inl e, s2) \<Rightarrow> (Inl (Failed_to_import_list e), s2)
              | (Inr ids, s2) \<Rightarrow> (Inr (length ids), s2))))"

subsection \<open>Backend merge\<close>

text \<open>
  A candidate of the backend batch is untyped: its \<open>domain\<close> is \<open>None\<close> when it is not a
  string, its \<open>pattern_type\<close> is \<open>None\<close> when it is missing; an empty string is falsy in
  either place. The conflict loop and the preparation of the new entries are the two
  \<open>for\<close> loops of \<open>mergeBackendList\<close>. The second reads the clock once for every entry it
  keeps, for \<open>sync_timestamp\<close>; the batch insert reads it after that.
\<close>

record candidate =
  cand_domain :: "string option"
  cand_pattern_type :: "string option"
  cand_metadata :: "metadata option"

definition resolve_conflict :: "string \<Rightarrow> store \<Rightarrow> candidate \<Rightarrow> store" where
  "resolve_conflict listName s entry =
     (case cand_domain entry of
        None \<Rightarrow> s
      | Some d \<Rightarrow>
          if d = [] then s
          else (case cand_pattern_type entry of
                  None \<Rightarrow> s
                | Some patternType \<Rightarrow>
                    if patternType = [] then s
                    else (case findListEntryByPattern listName patternType d s of
                            None \<Rightarrow> s
                          | Some existing \<Rightarrow> deleteListEntry (entry_id existing) s)))"

text \<open>One step of the second loop; \<open>t\<close> is the clock reading for \<open>sync_timestamp\<close>.\<close>

definition prepare_entry :: "platform \<Rightarrow> int \<Rightarrow> string \<Rightarrow> candidate \<Rightarrow> new_entry option" where
  "prepare_entry env t listName entry =
     (case cand_domain entry of
        None \<Rightarrow> None
      | Some d \<Rightarrow>
          (case cand_pattern_type entry of
             None \<Rightarrow> None
           | Some patternType \<Rightarrow>
               if d = [] \<or> patternType = [] then None
               else if patternType = ''domain'' \<and> \<not> isStrictRegisteredDomain env d then None
               else Some \<lparr>list_name = listName, domain = d, pattern_type = patternType,
                          source = Some Backend,
                          metadata =
                            (case cand_metadata entry of Some m \<Rightarrow> m | None \<Rightarrow> empty_metadata)
                            \<lparr>sync_timestamp := Present (Number (real_of_int t))\<rparr>\<rparr>))"

fun prepare_entries :: "platform \<Rightarrow> clock \<Rightarrow> nat \<Rightarrow> string \<Rightarrow> candidate list \<Rightarrow> new_entry list" where
  "prepare_entries env now k listName [] = []"
| "prepare_entries env now k listName (entry # batch) =
     (case prepare_entry env (now k) listName entry of
        None \<Rightarrow> prepare_entries env now k listName batch
      | Some e \<Rightarrow> e # prepare_entries env now (Suc k) listName batch)"

definition mergeBackendList ::
  "platform \<Rightarrow> clock \<Rightarrow> string \<Rightarrow> candidate list \<Rightarrow> store \<Rightarrow> (error + unit) \<times> store" where
  "mergeBackendList env now listName batch s =
     (let s1 = deleteAllEntriesInList listName (Some Backend) s;
          s2 = foldl (resolve_conflict listName) s1 batch;
          newEntries = prepare_entries env now 0 listName batch
      in if newEntries \<noteq> [] then
           (case bulkCreateListEntries (\<lambda>k. now (k + length newEntries)) newEntries s2 of
              (Inl e, s3) \<Rightarrow> (Inl e, s3)
            | (Inr ids, s3) \<Rightarrow> (Inr (), s3))
         else (Inr (), s2))"

text \<open>The uniqueness key that a candidate of the batch is looked up under, if any.\<close>

definition candidate_key :: "string \<Rightarrow> candidate \<Rightarrow> (string \<times> string \<times> string) option" where
  "candidate_key listName entry =
     (case cand_domain entry of
        None \<Rightarrow> None
      | Some d \<Rightarrow>
          (case cand_pattern_type entry of
             None \<Rightarrow> None
           | Some patternType \<Rightarrow>
               if d = [] \<or> patternType = [] then None else Some (listName, patternType, d)))"

section \<open>Stored state that the unique indexes guarantee\<close>

definition store_ok :: "store \<Rightarrow> bool" where
  "store_ok s =
     (distinct (map entry_id (entries s)) \<and> distinct (map entry_key (entries s)) \<and>
      list_all (\<lambda>e. entry_id e < next_id s) (entries s))"

text \<open>The records that a transaction adding \<open>es\<close> writes, from the key \<open>n\<close> on.\<close>

fun assign_ids :: "new_entry list \<Rightarrow> nat \<Rightarrow> list_entry list" where
  "assign_ids [] n = []"
| "assign_ids (e # es) n = stored e n # assign_ids es (Suc n)"

text \<open>
  The entries that a merge of \<open>batch\<close> into \<open>listName\<close> does not delete: those that are not
  backend entries of the list and whose key no candidate of the batch has.
\<close>

definition survivors :: "string \<Rightarrow> candidate list \<Rightarrow> list_entry list \<Rightarrow> list_entry list" where
  "survivors listName batch es =
     filter (\<lambda>e. \<not> (list_name e = listName \<and> source e = Some Backend) \<and>
                (\<forall>c\<in>set batch. candidate_key listName c \<noteq> Some (entry_key e))) es"

text \<open>
  An entry without what a repeated merge assigns anew: the id and the three timestamps.
  Everything else of the entry is kept.
\<close>

definition sans_timestamps :: "metadata \<Rightarrow> metadata" where
  "sans_timestamps m = m\<lparr>created_at := Absent, updated_at := Absent, sync_timestamp := Absent\<rparr>"

definition observed :: "'a new_entry_scheme \<Rightarrow> new_entry" where
  "observed e =
     \<lparr>list_name = list_name e, domain = domain e, pattern_type = pattern_type e,
      source = source e, metadata = sans_timestamps (metadata e)\<rparr>"

text \<open>Both timestamps are numbers, in order.\<close>

definition timestamps_ok :: "'a new_entry_scheme \<Rightarrow> bool" where
  "timestamps_ok e =
     (case created_at (metadata e) of
        Absent \<Rightarrow> False
      | Undefined \<Rightarrow> False
      | Present c \<Rightarrow>
          (case updated_at (metadata e) of
             Absent \<Rightarrow> False
           | Undefined \<Rightarrow> False
           | Present u \<Rightarrow> js_le c u))"

text \<open>
  A truthy \<open>created_at\<close> that the caller supplies at creation is not later than the first
  clock reading of the call.
\<close>

definition supplied_created_at_ok :: "clock \<Rightarrow> metadata \<Rightarrow> bool" where
  "supplied_created_at_ok now m =
     (case created_at m of
        Absent \<Rightarrow> True
      | Undefined \<Rightarrow> True
      | Present c \<Rightarrow> \<not> truthy c \<or> js_le c (Number (real_of_int (now 0))))"

text \<open>
  At an update, \<open>updates.metadata\<close> has no \<open>created_at\<close> property, or one that holds a
  number not later than the clock reading.
\<close>

definition updated_created_at_ok :: "clock \<Rightarrow> entry_updates \<Rightarrow> bool" where
  "updated_created_at_ok now updates =
     (case upd_metadata updates of
        None \<Rightarrow> True
      | Some m \<Rightarrow>
          (case created_at m of
             Absent \<Rightarrow> True
           | Undefined \<Rightarrow> False
           | Present c \<Rightarrow> js_le c (Number (real_of_int (now 0)))))"

section \<open>A sample platform\<close>

text \<open>
  A finite excerpt of the five capabilities, on the inputs of the examples: the resolver
  and the URL parser know a few names, and \<open>trim\<close> and \<open>toLowerCase\<close> are given on the
  patterns that need them (one padded with spaces and in capitals, one behind a no-break
  space, U+00A0); the other strings of the examples are lower-case and unpadded, and the
  two methods return them as they are. It only serves to instantiate the general theorems,
  which hold for every platform.
\<close>

definition sample_psl :: "string \<Rightarrow> psl_result" where
  "sample_psl h =
     (case map_of [(''google.com'', ''google.com''), (''mail.google.com'', ''google.com''),
                   (''example.com'', ''example.com'')] h of
        None \<Rightarrow> Psl_error
      | Some d \<Rightarrow> Psl_parsed (Some d))"

definition sample_URL :: "string \<Rightarrow> url option" where
  "sample_URL =
     map_of [(''https://mail.google.com/inbox'',
                \<lparr>hostname = ''mail.google.com'', pathname = ''/inbox''\<rparr>),
             (''https://example.com/maps/dir'',
                \<lparr>hostname = ''example.com'', pathname = ''/maps/dir''\<rparr>),
             (''https://example.com/maps'',
                \<lparr>hostname = ''example.com'', pathname = ''/maps''\<rparr>),
             (''https://example.com/map'',
                \<lparr>hostname = ''example.com'', pathname = ''/map''\<rparr>)]"

definition sample_RegExp :: "string \<Rightarrow> (string \<Rightarrow> bool) option" where
  "sample_RegExp = map_of [(''.*'', \<lambda>u. True)]"

definition sample_trim :: "string \<Rightarrow> string" where
  "sample_trim s =
     (case map_of [(''  WWW.Google.COM '', ''WWW.Google.COM''),
                   (CHR 0xC2 # CHR 0xA0 # ''google.com'', ''google.com'')] s of
        None \<Rightarrow> s
      | Some t \<Rightarrow> t)"

definition sample_toLowerCase :: "string \<Rightarrow> string" where
  "sample_toLowerCase s =
     (case map_of [(''WWW.Google.COM'', ''www.google.com'')] s of
        None \<Rightarrow> s
      | Some t \<Rightarrow> t)"

definition sample_platform :: platform where
  "sample_platform =
     \<lparr>psl_parse = sample_psl, new_URL = sample_URL, new_RegExp = sample_RegExp,
      trim = sample_trim, toLowerCase = sample_toLowerCase\<rparr>"

text \<open>A clock that advances by one millisecond from one reading to the next.\<close>

definition ticking :: "int \<Rightarrow> clock" where
  "ticking t k = t + int k"

definition sample_entry :: "string \<Rightarrow> string \<Rightarrow> entry_source option \<Rightarrow> nat \<Rightarrow> list_entry" where
  "sample_entry d t src i =
     \<lparr>list_name = ''blocklist'', domain = d, pattern_type = t, source = src,
      metadata = empty_metadata\<lparr>created_at := Present (Number 1000),
                                  updated_at := Present (Number 1000)\<rparr>,
      entry_id = i\<rparr>"

text \<open>
  A store with a \<open>user\<close> entry for \<open>google.com\<close>, a \<open>backend\<close> entry, a \<open>user\<close> entry whose
  \<open>domain\<close> pattern is a subdomain (a batch insert can write one), and a \<open>generated\<close> entry.
\<close>

definition sample_store :: store where
  "sample_store =
     \<lparr>entries = [sample_entry ''google.com'' ''domain'' (Some User) 1,
                 sample_entry ''example.com'' ''domain'' (Some Backend) 2,
                 sample_entry ''mail.google.com'' ''domain'' (Some User) 3,
                 sample_entry ''example.com'' ''host'' (Some Generated) 4],
      next_id = 5\<rparr>"

definition sample_candidate :: "string \<Rightarrow> string \<Rightarrow> candidate" where
  "sample_candidate d t =
     \<lparr>cand_domain = Some d, cand_pattern_type = Some t, cand_metadata = None\<rparr>"

definition sample_batch :: "candidate list" where
  "sample_batch =
     [sample_candidate ''google.com'' ''domain'', sample_candidate ''mail.google.com'' ''domain'']"

section \<open>Facts about strings\<close>


lemma startsWith_iff: "startsWith s p \<longleftrightarrow> (\<exists>rest. s = p @ rest)"
  unfolding startsWith_def
  by (metis append_eq_conv_conj append_take_drop_id)



lemma str_includes_set: "str_includes s p \<Longrightarrow> set p \<subseteq> set s"
proof (induction s)
  case Nil
  then show ?case by simp
next
  case (Cons c cs)
  from Cons.prems have "startsWith (c # cs) p \<or> str_includes cs p" by simp
  then show ?case
  proof
    assume "startsWith (c # cs) p"
    then obtain rest where "c # cs = p @ rest" unfolding startsWith_iff ..
    then have "set (c # cs) = set p \<union> set rest" by (metis set_append)
    then show ?thesis by blast
  next
    assume "str_includes cs p"
    then have "set p \<subseteq> set cs" by (rule Cons.IH)
    then show ?thesis by auto
  qed
qed



section \<open>The pattern matcher\<close>

lemmas sample_simps =
  sample_platform_def sample_psl_def sample_URL_def sample_RegExp_def sample_trim_def
  sample_toLowerCase_def isStrictRegisteredDomain_def normalizeLeadingWww_def
  startsWith_def endsWith_def host_path_prefix_split_def


lemma matchesPattern_total: "\<exists>b. matchesPattern env u p t = Inr b"
  unfolding matchesPattern_def by (cases "matchesPattern_try env u p t") auto

text \<open>
  C4. \<open>matchesPattern\<close> always returns a boolean: no exception leaves it. When the URL
  does not parse the result is \<open>false\<close> for every pattern and pattern type, and a \<open>regex\<close>
  pattern that does not compile gives \<open>false\<close>.
\<close>

theorem matchesPattern_never_throws:
  "(\<exists>b. matchesPattern env u p t = Inr b) \<and>
   (new_URL env u = None \<longrightarrow> matchesPattern env u p t = Inr False) \<and>
   (new_RegExp env p = None \<longrightarrow> matchesPattern env u p ''regex'' = Inr False)"
proof (intro conjI impI)
  show "\<exists>b. matchesPattern env u p t = Inr b" by (rule matchesPattern_total)
next
  assume "new_URL env u = None"
  then show "matchesPattern env u p t = Inr False"
    by (simp add: matchesPattern_def matchesPattern_try_def)
next
  assume "new_RegExp env p = None"
  then show "matchesPattern env u p ''regex'' = Inr False"
    by (cases "new_URL env u") (simp_all add: matchesPattern_def matchesPattern_try_def)
qed

theorem matchesPattern_never_throws_witness:
  "new_URL sample_platform ''not-a-url'' = None \<and>
   matchesPattern sample_platform ''not-a-url'' ''example.com'' ''domain'' = Inr False \<and>
   new_RegExp sample_platform ''[invalid(regex'' = None \<and>
   matchesPattern sample_platform ''https://example.com/map'' ''[invalid(regex'' ''regex'' =
     Inr False"
proof -
  have no_url: "new_URL sample_platform ''not-a-url'' = None"
    by (simp add: sample_platform_def sample_URL_def)
  have no_re: "new_RegExp sample_platform ''[invalid(regex'' = None"
    by (simp add: sample_platform_def sample_RegExp_def)
  have "matchesPattern sample_platform ''not-a-url'' ''example.com'' ''domain'' = Inr False"
    using matchesPattern_never_throws
            [of sample_platform "''not-a-url''" "''example.com''" "''domain''"] no_url
    by blast
  moreover
  have "matchesPattern sample_platform ''https://example.com/map'' ''[invalid(regex'' ''regex'' =
          Inr False"
    using matchesPattern_never_throws
            [of sample_platform "''https://example.com/map''" "''[invalid(regex''" "''regex''"]
          no_re
    by blast
  ultimately show ?thesis using no_url no_re by blast
qed

lemma str_includes_slash: "str_includes s ''/'' \<longleftrightarrow> CHR ''/'' \<in> set s"
  by (induction s) (auto simp: startsWith_def)

lemma normalizeLeadingWww_char:
  assumes "l = toLowerCase env s"
    and "(\<exists>r. l = ''www.'' @ r \<and> c = r) \<or> (\<not> (\<exists>r. l = ''www.'' @ r) \<and> c = l)"
  shows "normalizeLeadingWww env s = c"
proof (cases "\<exists>r. l = ''www.'' @ r")
  case True
  then obtain r where r: "l = ''www.'' @ r" ..
  with assms(2) have "c = r" by auto
  moreover from r have "startsWith l ''www.''" unfolding startsWith_iff by blast
  ultimately show ?thesis using r assms(1) by (simp add: normalizeLeadingWww_def)
next
  case False
  with assms(2) have "c = l" by auto
  moreover from False have "\<not> startsWith l ''www.''" unfolding startsWith_iff .
  ultimately show ?thesis using assms(1) by (simp add: normalizeLeadingWww_def)
qed

lemma isStrictRegisteredDomain_char:
  assumes "normalizeLeadingWww env (trim env p) = c"
  shows "isStrictRegisteredDomain env p \<longleftrightarrow>
           CHR ''/'' \<notin> set c \<and> c \<noteq> [] \<and> psl_parse env c = Psl_parsed (Some c)"
proof -
  have "str_includes c ''://'' \<Longrightarrow> CHR ''/'' \<in> set c"
    using str_includes_set [of c "''://''"] by auto
  then show ?thesis
    unfolding isStrictRegisteredDomain_def assms Let_def
    by (auto simp: str_includes_slash split: psl_result.splits option.splits)
qed

text \<open>
  C5. For the pattern type \<open>domain\<close>. Let \<open>c\<close> be the pattern trimmed, lower-cased and
  without one leading \<open>www.\<close>. The pattern is a strict registered domain exactly when \<open>c\<close>
  has no slash and is its own registrable domain. A pattern that is not never matches,
  whatever the URL; one that is matches exactly when the URL parses and the registrable
  domain of its host name is \<open>c\<close>.
\<close>

theorem matchesPattern_domain:
  assumes "l = toLowerCase env (trim env p)"
    and "(\<exists>r. l = ''www.'' @ r \<and> c = r) \<or> (\<not> (\<exists>r. l = ''www.'' @ r) \<and> c = l)"
  shows "(isStrictRegisteredDomain env p \<longleftrightarrow>
            CHR ''/'' \<notin> set c \<and> c \<noteq> [] \<and> psl_parse env c = Psl_parsed (Some c)) \<and>
         (\<not> isStrictRegisteredDomain env p \<longrightarrow>
            matchesPattern env u p ''domain'' = Inr False) \<and>
         (isStrictRegisteredDomain env p \<longrightarrow>
            matchesPattern env u p ''domain'' =
              Inr (case new_URL env u of
                     None \<Rightarrow> False
                   | Some urlObj \<Rightarrow> psl_parse env (hostname urlObj) = Psl_parsed (Some c)))"
proof (intro conjI impI)
  have norm: "normalizeLeadingWww env (trim env p) = c"
    using assms by (rule normalizeLeadingWww_char)
  show char: "isStrictRegisteredDomain env p \<longleftrightarrow>
            CHR ''/'' \<notin> set c \<and> c \<noteq> [] \<and> psl_parse env c = Psl_parsed (Some c)"
    using norm by (rule isStrictRegisteredDomain_char)
  {
    assume "\<not> isStrictRegisteredDomain env p"
    then show "matchesPattern env u p ''domain'' = Inr False"
      by (cases "new_URL env u") (simp_all add: matchesPattern_def matchesPattern_try_def)
  }
  {
    assume strict: "isStrictRegisteredDomain env p"
    with char have ne: "c \<noteq> []" by simp
    show "matchesPattern env u p ''domain'' =
              Inr (case new_URL env u of
                     None \<Rightarrow> False
                   | Some urlObj \<Rightarrow> psl_parse env (hostname urlObj) = Psl_parsed (Some c))"
    proof (cases "new_URL env u")
      case None
      then show ?thesis by (simp add: matchesPattern_def matchesPattern_try_def)
    next
      case (Some urlObj)
      with strict ne show ?thesis
        by (auto simp: matchesPattern_def matchesPattern_try_def norm
                 split: psl_result.splits option.splits)
    qed
  }
qed

theorem matchesPattern_domain_witness:
  "isStrictRegisteredDomain sample_platform ''  WWW.Google.COM '' \<and>
   matchesPattern sample_platform ''https://mail.google.com/inbox'' ''  WWW.Google.COM ''
     ''domain'' = Inr True \<and>
   matchesPattern sample_platform ''https://example.com/maps'' ''  WWW.Google.COM ''
     ''domain'' = Inr False \<and>
   matchesPattern sample_platform ''https://mail.google.com/inbox''
     (CHR 0xC2 # CHR 0xA0 # ''google.com'') ''domain'' = Inr True \<and>
   matchesPattern sample_platform ''https://mail.google.com/inbox'' ''google.com'' ''domain'' =
     Inr True \<and>
   \<not> isStrictRegisteredDomain sample_platform ''mail.google.com'' \<and>
   matchesPattern sample_platform ''https://mail.google.com/inbox'' ''mail.google.com''
     ''domain'' = Inr False"
proof -
  have l1: "''www.google.com'' = toLowerCase sample_platform (trim sample_platform ''  WWW.Google.COM '')"
    by (simp add: sample_platform_def sample_trim_def sample_toLowerCase_def)
  have c1: "(\<exists>r. ''www.google.com'' = ''www.'' @ r \<and> ''google.com'' = r) \<or>
            (\<not> (\<exists>r. ''www.google.com'' = ''www.'' @ r) \<and> ''google.com'' = ''www.google.com'')"
    by simp
  note padded = matchesPattern_domain [OF l1 c1]
  have l2: "''google.com'' =
              toLowerCase sample_platform (trim sample_platform (CHR 0xC2 # CHR 0xA0 # ''google.com''))"
    by (simp add: sample_platform_def sample_trim_def sample_toLowerCase_def)
  have c2: "(\<exists>r. ''google.com'' = ''www.'' @ r \<and> ''google.com'' = r) \<or>
            (\<not> (\<exists>r. ''google.com'' = ''www.'' @ r) \<and> ''google.com'' = ''google.com'')"
    by simp
  note nbsp = matchesPattern_domain [OF l2 c2]
  have l3: "''google.com'' = toLowerCase sample_platform (trim sample_platform ''google.com'')"
    by (simp add: sample_platform_def sample_trim_def sample_toLowerCase_def)
  note plain = matchesPattern_domain [OF l3 c2]
  have l4: "''mail.google.com'' =
              toLowerCase sample_platform (trim sample_platform ''mail.google.com'')"
    by (simp add: sample_platform_def sample_trim_def sample_toLowerCase_def)
  have c4: "(\<exists>r. ''mail.google.com'' = ''www.'' @ r \<and> ''mail.google.com'' = r) \<or>
            (\<not> (\<exists>r. ''mail.google.com'' = ''www.'' @ r) \<and> ''mail.google.com'' = ''mail.google.com'')"
    by simp
  note sub = matchesPattern_domain [OF l4 c4]
  have google: "psl_parse sample_platform ''google.com'' = Psl_parsed (Some ''google.com'')"
    and mail: "psl_parse sample_platform ''mail.google.com'' = Psl_parsed (Some ''google.com'')"
    and example: "psl_parse sample_platform ''example.com'' = Psl_parsed (Some ''example.com'')"
    by (simp_all add: sample_platform_def sample_psl_def)
  have inbox: "new_URL sample_platform ''https://mail.google.com/inbox'' =
                 Some \<lparr>hostname = ''mail.google.com'', pathname = ''/inbox''\<rparr>"
    and maps: "new_URL sample_platform ''https://example.com/maps'' =
                 Some \<lparr>hostname = ''example.com'', pathname = ''/maps''\<rparr>"
    by (simp_all add: sample_platform_def sample_URL_def)
  from padded google have s1: "isStrictRegisteredDomain sample_platform ''  WWW.Google.COM ''"
    by simp
  from nbsp google
  have s2: "isStrictRegisteredDomain sample_platform (CHR 0xC2 # CHR 0xA0 # ''google.com'')"
    by simp
  from plain google have s3: "isStrictRegisteredDomain sample_platform ''google.com''"
    by simp
  from sub mail have s4: "\<not> isStrictRegisteredDomain sample_platform ''mail.google.com''"
    by simp
  from padded [of "''https://mail.google.com/inbox''"] s1 inbox mail
  have "matchesPattern sample_platform ''https://mail.google.com/inbox'' ''  WWW.Google.COM ''
          ''domain'' = Inr True" by simp
  moreover from padded [of "''https://example.com/maps''"] s1 maps example
  have "matchesPattern sample_platform ''https://example.com/maps'' ''  WWW.Google.COM ''
          ''domain'' = Inr False" by simp
  moreover from nbsp [of "''https://mail.google.com/inbox''"] s2 inbox mail
  have "matchesPattern sample_platform ''https://mail.google.com/inbox''
          (CHR 0xC2 # CHR 0xA0 # ''google.com'') ''domain'' = Inr True" by simp
  moreover from plain [of "''https://mail.google.com/inbox''"] s3 inbox mail
  have "matchesPattern sample_platform ''https://mail.google.com/inbox'' ''google.com''
          ''domain'' = Inr True" by simp
  moreover from sub [of "''https://mail.google.com/inbox''"] s4
  have "matchesPattern sample_platform ''https://mail.google.com/inbox'' ''mail.google.com''
          ''domain'' = Inr False" by simp
  ultimately show ?thesis using s1 s4 by blast
qed



section \<open>Facts about the store\<close>

lemma entry_key_entryWithTimestamps [simp]:
  "entry_key (entryWithTimestamps now k e) = entry_key e"
  by (simp add: entry_key_def entryWithTimestamps_def)

lemma source_entryWithTimestamps [simp]: "source (entryWithTimestamps now k e) = source e"
  by (simp add: entryWithTimestamps_def)

lemma list_name_entryWithTimestamps [simp]:
  "list_name (entryWithTimestamps now k e) = list_name e"
  by (simp add: entryWithTimestamps_def)

lemma domain_entryWithTimestamps [simp]: "domain (entryWithTimestamps now k e) = domain e"
  by (simp add: entryWithTimestamps_def)

lemma pattern_type_entryWithTimestamps [simp]:
  "pattern_type (entryWithTimestamps now k e) = pattern_type e"
  by (simp add: entryWithTimestamps_def)

lemma length_stamp_all [simp]: "length (stamp_all now k es) = length es"
  by (induction es arbitrary: k) auto

lemma map_key_stamp_all [simp]: "map entry_key (stamp_all now k es) = map entry_key es"
  by (induction es arbitrary: k) auto

lemma map_source_stamp_all [simp]: "map source (stamp_all now k es) = map source es"
  by (induction es arbitrary: k) auto

lemma map_list_name_stamp_all [simp]: "map list_name (stamp_all now k es) = map list_name es"
  by (induction es arbitrary: k) auto

lemma map_domain_stamp_all [simp]: "map domain (stamp_all now k es) = map domain es"
  by (induction es arbitrary: k) auto

lemma map_pattern_type_stamp_all [simp]:
  "map pattern_type (stamp_all now k es) = map pattern_type es"
  by (induction es arbitrary: k) auto

lemma domain_stored [simp]: "domain (stored e i) = domain e"
  by (simp add: stored_def)

lemma pattern_type_stored [simp]: "pattern_type (stored e i) = pattern_type e"
  by (simp add: stored_def)

lemma entry_key_stored [simp]: "entry_key (stored e i) = entry_key e"
  by (simp add: entry_key_def stored_def)

lemma source_stored [simp]: "source (stored e i) = source e"
  by (simp add: stored_def)

lemma entry_id_stored [simp]: "entry_id (stored e i) = i"
  by (simp add: stored_def)

lemma list_name_stored [simp]: "list_name (stored e i) = list_name e"
  by (simp add: stored_def)

lemma metadata_stored [simp]: "metadata (stored e i) = metadata e"
  by (simp add: stored_def)

lemma length_assign_ids [simp]: "length (assign_ids es n) = length es"
  by (induction es arbitrary: n) auto

lemma map_key_assign_ids [simp]: "map entry_key (assign_ids es n) = map entry_key es"
  by (induction es arbitrary: n) auto

lemma map_source_assign_ids [simp]: "map source (assign_ids es n) = map source es"
  by (induction es arbitrary: n) auto

lemma map_list_name_assign_ids [simp]: "map list_name (assign_ids es n) = map list_name es"
  by (induction es arbitrary: n) auto

lemma map_metadata_assign_ids [simp]: "map metadata (assign_ids es n) = map metadata es"
  by (induction es arbitrary: n) auto

lemma map_id_assign_ids [simp]: "map entry_id (assign_ids es n) = [n ..< n + length es]"
  by (induction es arbitrary: n) (auto simp: upt_conv_Cons simp del: upt_Suc)

lemma assign_ids_range:
  "x \<in> set (assign_ids es n) \<Longrightarrow> n \<le> entry_id x \<and> entry_id x < n + length es"
  by (induction es arbitrary: n) fastforce+

lemma add_all_None_iff:
  "add_all es s = None \<longleftrightarrow>
     \<not> (distinct (map entry_key es) \<and>
        set (map entry_key es) \<inter> set (map entry_key (entries s)) = {})"
proof (induction es arbitrary: s)
  case Nil
  then show ?case by simp
next
  case (Cons e es)
  show ?case
  proof (cases "entry_key e \<in> set (map entry_key (entries s))")
    case True
    then show ?thesis by (auto simp: store_add_def)
  next
    case False
    then show ?thesis
      using Cons.IH [of "s\<lparr>entries := entries s @ [stored e (next_id s)], next_id := Suc (next_id s)\<rparr>"]
      by (auto simp: store_add_def split: option.splits)
  qed
qed

lemma add_all_Some:
  "add_all es s = Some (ids, s') \<Longrightarrow>
     ids = [next_id s ..< next_id s + length es] \<and>
     entries s' = entries s @ assign_ids es (next_id s) \<and>
     next_id s' = next_id s + length es"
proof (induction es arbitrary: s ids s')
  case Nil
  then show ?case by simp
next
  case (Cons e es)
  from Cons.prems obtain i s1 where a: "store_add e s = Some (i, s1)"
    by (auto split: option.splits)
  with Cons.prems obtain ids1 where b: "add_all es s1 = Some (ids1, s')" and c: "ids = i # ids1"
    by (auto split: option.splits)
  from a have i: "i = next_id s" and s1: "entries s1 = entries s @ [stored e (next_id s)]"
    and n1: "next_id s1 = Suc (next_id s)"
    by (auto simp: store_add_def split: if_splits)
  have u: "[next_id s ..< next_id s + length (e # es)] =
             next_id s # [Suc (next_id s) ..< Suc (next_id s) + length es]"
    by (simp add: upt_conv_Cons del: upt_Suc)
  from Cons.IH [OF b] have "ids1 = [Suc (next_id s) ..< Suc (next_id s) + length es]"
    and "entries s' = (entries s @ [stored e (next_id s)]) @ assign_ids es (Suc (next_id s))"
    and "next_id s' = Suc (next_id s) + length es"
    by (simp_all only: s1 n1)
  with c i u show ?case by simp
qed

lemma store_ok_empty: "store_ok empty_store"
  by (simp add: store_ok_def empty_store_def)

lemma distinct_map_filter_keep: "distinct (map f xs) \<Longrightarrow> distinct (map f (filter P xs))"
  by (induction xs) auto

lemma store_ok_filter:
  "store_ok s \<Longrightarrow> store_ok (s\<lparr>entries := filter P (entries s)\<rparr>)"
  by (auto simp: store_ok_def distinct_map_filter_keep list_all_iff)

lemma store_ok_deleteListEntry: "store_ok s \<Longrightarrow> store_ok (deleteListEntry i s)"
  unfolding deleteListEntry_def by (rule store_ok_filter)

lemma store_ok_deleteAllEntriesInList:
  "store_ok s \<Longrightarrow> store_ok (deleteAllEntriesInList listName sourceFilter s)"
  unfolding deleteAllEntriesInList_def by (cases sourceFilter) (simp_all add: store_ok_filter)

lemma store_ok_add_all:
  assumes "store_ok s" and "add_all es s = Some (ids, s')"
  shows "store_ok s'"
proof -
  from assms(2) have ok: "distinct (map entry_key es)"
      "set (map entry_key es) \<inter> set (map entry_key (entries s)) = {}"
    using add_all_None_iff [of es s] by auto
  from add_all_Some [OF assms(2)] have e: "entries s' = entries s @ assign_ids es (next_id s)"
    and n: "next_id s' = next_id s + length es" by auto
  from assms(1) have d: "distinct (map entry_id (entries s))" "distinct (map entry_key (entries s))"
    and lt: "\<forall>x\<in>set (entries s). entry_id x < next_id s"
    by (auto simp: store_ok_def list_all_iff)
  have "distinct (map entry_id (entries s'))"
    using d(1) lt by (auto simp: e)
  moreover have "distinct (map entry_key (entries s'))"
    using d(2) ok by (auto simp: e)
  moreover have "\<forall>x\<in>set (entries s'). entry_id x < next_id s'"
  proof
    fix x assume "x \<in> set (entries s')"
    then consider "x \<in> set (entries s)" | "x \<in> set (assign_ids es (next_id s))"
      by (auto simp: e)
    then show "entry_id x < next_id s'"
    proof cases
      case 1
      with lt n show ?thesis by fastforce
    next
      case 2
      then show ?thesis using assign_ids_range [of x es "next_id s"] by (simp add: n)
    qed
  qed
  ultimately show ?thesis by (simp add: store_ok_def list_all_iff)
qed

lemma distinct_map_eq: "distinct (map f xs) \<Longrightarrow> x \<in> set xs \<Longrightarrow> y \<in> set xs \<Longrightarrow> f x = f y \<Longrightarrow> x = y"
  by (meson distinct_map inj_onD)

lemma find_key_None: "find P xs = None \<Longrightarrow> filter (\<lambda>e. \<not> P e) xs = xs"
  by (simp add: find_None_iff filter_id_conv)

lemma find_Some_mem: "find P xs = Some x \<Longrightarrow> x \<in> set xs \<and> P x"
  by (auto simp: find_Some_iff)

lemma resolve_conflict_entries:
  assumes "store_ok s"
  shows "entries (resolve_conflict listName s c) =
           filter (\<lambda>e. candidate_key listName c \<noteq> Some (entry_key e)) (entries s)"
proof (cases "candidate_key listName c")
  case None
  then have "resolve_conflict listName s c = s"
    by (auto simp: candidate_key_def resolve_conflict_def split: option.splits if_splits)
  with None show ?thesis by simp
next
  case (Some K)
  then obtain d pt where c: "cand_domain c = Some d" "cand_pattern_type c = Some pt"
      "d \<noteq> []" "pt \<noteq> []" and K: "K = (listName, pt, d)"
    by (auto simp: candidate_key_def split: option.splits if_splits)
  show ?thesis
  proof (cases "findListEntryByPattern listName pt d s")
    case None
    then have "filter (\<lambda>e. \<not> entry_key e = K) (entries s) = entries s"
      unfolding findListEntryByPattern_def K by (rule find_key_None)
    moreover from None c have "resolve_conflict listName s c = s"
      by (simp add: resolve_conflict_def)
    ultimately show ?thesis using Some by (simp add: eq_commute [of "Some K"] eq_commute [of K])
  next
    case (Some existing)
    then have ex: "existing \<in> set (entries s)" "entry_key existing = K"
      using find_Some_mem [of "\<lambda>e. entry_key e = (listName, pt, d)" "entries s" existing]
      by (simp_all add: findListEntryByPattern_def K)
    from assms have d1: "distinct (map entry_id (entries s))"
      and d2: "distinct (map entry_key (entries s))" by (simp_all add: store_ok_def)
    have "filter (\<lambda>e. entry_id e \<noteq> entry_id existing) (entries s) =
          filter (\<lambda>e. entry_key e \<noteq> K) (entries s)"
    proof (rule filter_cong [OF refl])
      fix e assume e: "e \<in> set (entries s)"
      show "(entry_id e \<noteq> entry_id existing) = (entry_key e \<noteq> K)"
        using distinct_map_eq [OF d1 e ex(1)] distinct_map_eq [OF d2 e ex(1)] ex(2) by auto
    qed
    moreover from Some c have "resolve_conflict listName s c = deleteListEntry (entry_id existing) s"
      by (simp add: resolve_conflict_def)
    ultimately show ?thesis using \<open>candidate_key listName c = Some K\<close>
      by (simp add: deleteListEntry_def eq_commute [of K])
  qed
qed

lemma resolve_conflict_next_id: "next_id (resolve_conflict listName s c) = next_id s"
  by (simp add: resolve_conflict_def deleteListEntry_def split: option.splits)

lemma store_ok_resolve_conflict: "store_ok s \<Longrightarrow> store_ok (resolve_conflict listName s c)"
  by (simp add: resolve_conflict_def store_ok_deleteListEntry split: option.splits)

lemma resolve_conflicts_fold:
  "store_ok s \<Longrightarrow>
     store_ok (foldl (resolve_conflict listName) s batch) \<and>
     next_id (foldl (resolve_conflict listName) s batch) = next_id s \<and>
     entries (foldl (resolve_conflict listName) s batch) =
       filter (\<lambda>e. \<forall>c\<in>set batch. candidate_key listName c \<noteq> Some (entry_key e)) (entries s)"
proof (induction batch arbitrary: s)
  case Nil
  then show ?case by simp
next
  case (Cons c batch)
  from Cons.prems have ok: "store_ok (resolve_conflict listName s c)"
    by (rule store_ok_resolve_conflict)
  from Cons.IH [OF ok] show ?case
    by (auto simp: resolve_conflict_next_id resolve_conflict_entries [OF Cons.prems]
             intro: filter_cong)
qed

section \<open>Facts about the backend merge\<close>

lemma prepare_entry_Some:
  "prepare_entry env t listName c = Some e \<Longrightarrow>
     candidate_key listName c = Some (entry_key e) \<and> source e = Some Backend \<and>
     list_name e = listName \<and>
     (pattern_type e = ''domain'' \<longrightarrow> isStrictRegisteredDomain env (domain e))"
  by (auto simp: prepare_entry_def candidate_key_def entry_key_def
           split: option.splits if_splits)

lemma prepare_entry_None:
  "prepare_entry env t listName c = None \<longleftrightarrow>
     (case candidate_key listName c of
        None \<Rightarrow> True
      | Some (l, pt, d) \<Rightarrow> pt = ''domain'' \<and> \<not> isStrictRegisteredDomain env d)"
  by (auto simp: prepare_entry_def candidate_key_def split: option.splits if_splits)

lemma prepare_entry_clock:
  "prepare_entry env t listName c = Some e \<Longrightarrow>
     \<exists>e'. prepare_entry env t' listName c = Some e' \<and> entry_key e' = entry_key e"
proof -
  assume a: "prepare_entry env t listName c = Some e"
  then have "prepare_entry env t' listName c \<noteq> None"
    using prepare_entry_None [of env t listName c] prepare_entry_None [of env t' listName c]
    by simp
  then obtain e' where e': "prepare_entry env t' listName c = Some e'" by auto
  from prepare_entry_Some [OF a] prepare_entry_Some [OF e'] have "entry_key e' = entry_key e"
    by simp
  with e' show ?thesis by blast
qed

lemma prepared_mem:
  "e \<in> set (prepare_entries env now k listName batch) \<Longrightarrow>
     \<exists>c\<in>set batch. \<exists>t. prepare_entry env t listName c = Some e"
proof (induction batch arbitrary: k)
  case Nil
  then show ?case by simp
next
  case (Cons c batch)
  then show ?case by (fastforce split: option.splits)
qed

lemma prepared_has_candidate:
  "c \<in> set batch \<Longrightarrow> prepare_entry env t listName c = Some ne \<Longrightarrow>
     \<exists>e\<in>set (prepare_entries env now k listName batch). entry_key e = entry_key ne"
proof (induction batch arbitrary: k)
  case Nil
  then show ?case by simp
next
  case (Cons a batch)
  show ?case
  proof (cases "c = a")
    case True
    with Cons.prems(2) obtain e' where "prepare_entry env (now k) listName a = Some e'"
      and "entry_key e' = entry_key ne"
      using prepare_entry_clock by blast
    then show ?thesis by auto
  next
    case False
    with Cons.prems have "c \<in> set batch" by simp
    from Cons.IH [OF this Cons.prems(2)] show ?thesis
      by (cases "prepare_entry env (now k) listName a") auto
  qed
qed

lemma prepared_keys_are_candidate_keys:
  "e \<in> set (prepare_entries env now k listName batch) \<Longrightarrow>
     \<exists>c\<in>set batch. candidate_key listName c = Some (entry_key e)"
  using prepared_mem prepare_entry_Some by blast

lemma stamped_mem:
  "x \<in> set (stamp_all nw j es) \<Longrightarrow> \<exists>e\<in>set es. \<exists>i. x = entryWithTimestamps nw i e"
  by (induction es arbitrary: j) auto

lemma stamped_has:
  "e \<in> set es \<Longrightarrow> \<exists>i. entryWithTimestamps nw i e \<in> set (stamp_all nw j es)"
  by (induction es arbitrary: j) auto

lemma survivors_avoid_prepared:
  "set (map entry_key (prepare_entries env now k listName batch)) \<inter>
   set (map entry_key (survivors listName batch es)) = {}"
proof -
  have "False" if "e \<in> set (prepare_entries env now k listName batch)"
     and "x \<in> set (survivors listName batch es)" and "entry_key e = entry_key x" for e x
  proof -
    from that(1) obtain c where "c \<in> set batch" "candidate_key listName c = Some (entry_key e)"
      using prepared_keys_are_candidate_keys by blast
    with that(2,3) show False by (auto simp: survivors_def)
  qed
  then show ?thesis by fastforce
qed

lemma merge_deletions:
  assumes "store_ok s"
  shows "foldl (resolve_conflict listName) (deleteAllEntriesInList listName (Some Backend) s) batch =
           s\<lparr>entries := survivors listName batch (entries s)\<rparr>"
proof -
  let ?s1 = "deleteAllEntriesInList listName (Some Backend) s"
  have ok1: "store_ok ?s1" using assms by (rule store_ok_deleteAllEntriesInList)
  have e1: "entries ?s1 =
              filter (\<lambda>e. \<not> (list_name e = listName \<and> source e = Some Backend)) (entries s)"
    and n1: "next_id ?s1 = next_id s"
    by (simp_all add: deleteAllEntriesInList_def)
  from resolve_conflicts_fold [OF ok1, of listName batch]
  have "next_id (foldl (resolve_conflict listName) ?s1 batch) = next_id s"
    and "entries (foldl (resolve_conflict listName) ?s1 batch) =
           survivors listName batch (entries s)"
    by (simp_all add: e1 n1 survivors_def)
  then show ?thesis by (intro store.equality) simp_all
qed

text \<open>
  The result of a merge, in one equation: the entries that survive the deletions, followed
  by the prepared entries with their timestamps and ids when no two of them share a key;
  the survivors alone, and an error, when two do.
\<close>

lemma mergeBackendList_result:
  assumes "store_ok s"
  shows "mergeBackendList env now listName batch s =
           (let new = prepare_entries env now 0 listName batch in
            if distinct (map entry_key new)
            then (Inr (),
                  s\<lparr>entries := survivors listName batch (entries s) @
                                assign_ids (stamp_all (\<lambda>k. now (k + length new)) 0 new)
                                  (next_id s),
                    next_id := next_id s + length new\<rparr>)
            else (Inl Failed_to_create_bulk_entry,
                  s\<lparr>entries := survivors listName batch (entries s)\<rparr>))"
proof -
  define new where "new = prepare_entries env now 0 listName batch"
  define nw where "nw = (\<lambda>k. now (k + length new))"
  define s2 where "s2 = s\<lparr>entries := survivors listName batch (entries s)\<rparr>"
  have m: "mergeBackendList env now listName batch s =
             (if new \<noteq> [] then
                (case bulkCreateListEntries nw new s2 of
                   (Inl e, s3) \<Rightarrow> (Inl e, s3)
                 | (Inr ids, s3) \<Rightarrow> (Inr (), s3))
              else (Inr (), s2))"
    by (simp add: mergeBackendList_def merge_deletions [OF assms] new_def s2_def nw_def Let_def)
  have disj: "set (map entry_key new) \<inter> set (map entry_key (entries s2)) = {}"
    unfolding new_def s2_def using survivors_avoid_prepared [of env now 0 listName batch "entries s"]
    by simp
  show ?thesis
  proof (cases "distinct (map entry_key new)")
    case False
    then have "new \<noteq> []" by auto
    moreover from False have "add_all (stamp_all nw 0 new) s2 = None"
      unfolding add_all_None_iff by simp
    ultimately show ?thesis using False m
      by (simp add: bulkCreateListEntries_def new_def [symmetric] s2_def Let_def)
  next
    case True
    with disj have "add_all (stamp_all nw 0 new) s2 \<noteq> None"
      unfolding add_all_None_iff by simp
    then obtain ids s3 where a: "add_all (stamp_all nw 0 new) s2 = Some (ids, s3)"
      by auto
    from add_all_Some [OF a]
    have "s3 = s\<lparr>entries := survivors listName batch (entries s) @
                                assign_ids (stamp_all nw 0 new) (next_id s),
                 next_id := next_id s + length new\<rparr>"
      by (intro store.equality) (simp_all add: s2_def)
    moreover have "new = [] \<Longrightarrow> s2 = s3" using a by simp
    ultimately show ?thesis using True m a
      by (simp add: bulkCreateListEntries_def new_def [symmetric] nw_def [symmetric] Let_def)
  qed
qed

lemma mergeBackendList_completes_iff:
  assumes "store_ok s"
  shows "fst (mergeBackendList env now listName batch s) = Inr () \<longleftrightarrow>
           distinct (map entry_key (prepare_entries env now 0 listName batch))"
  unfolding mergeBackendList_result [OF assms] Let_def by simp


lemma filter_key_single:
  "distinct (map f xs) \<Longrightarrow> x \<in> set xs \<Longrightarrow> filter (\<lambda>y. f y = f x) xs = [x]"
proof (induction xs)
  case Nil
  then show ?case by simp
next
  case (Cons a xs)
  show ?case
  proof (cases "a = x")
    case True
    with Cons.prems have "f x \<notin> f ` set xs" by simp
    then have "\<forall>y\<in>set xs. f y \<noteq> f x" by (metis imageI)
    then have "filter (\<lambda>y. f y = f x) xs = []" by (simp add: filter_empty_conv)
    with True show ?thesis by simp
  next
    case False
    with Cons.prems have "x \<in> set xs" "f a \<noteq> f x" by auto
    with Cons show ?thesis by simp
  qed
qed

lemma survivors_no_candidate_key:
  "c \<in> set batch \<Longrightarrow> candidate_key listName c = Some K \<Longrightarrow>
     filter (\<lambda>e. entry_key e = K) (survivors listName batch es) = []"
  by (auto simp: survivors_def filter_empty_conv)

lemma mem_assign_ids: "x \<in> set (assign_ids es n) \<Longrightarrow> \<exists>e\<in>set es. \<exists>i. x = stored e i"
  by (induction es arbitrary: n) auto

lemma assign_ids_mem: "e \<in> set es \<Longrightarrow> \<exists>i. stored e i \<in> set (assign_ids es n)"
  by (induction es arbitrary: n) auto

lemma merged_entries_backend:
  assumes "x \<in> set (assign_ids (stamp_all nw j (prepare_entries env now k listName batch)) n)"
  shows "source x = Some Backend \<and> list_name x = listName \<and>
         (\<exists>c\<in>set batch. candidate_key listName c = Some (entry_key x)) \<and>
         (pattern_type x = ''domain'' \<longrightarrow> isStrictRegisteredDomain env (domain x))"
proof -
  from mem_assign_ids [OF assms] obtain e' i
    where e': "e' \<in> set (stamp_all nw j (prepare_entries env now k listName batch))"
      and x: "x = stored e' i"
    by auto
  from stamped_mem [OF e'] obtain e i' where e: "e \<in> set (prepare_entries env now k listName batch)"
    and e'_def: "e' = entryWithTimestamps nw i' e"
    by auto
  from prepared_mem [OF e] obtain c t where c: "c \<in> set batch"
    "prepare_entry env t listName c = Some e"
    by auto
  from prepare_entry_Some [OF c(2)] c(1) show ?thesis
    unfolding x e'_def by auto
qed

text \<open>
  When the merge returns without an error, a \<open>user\<close> entry at the key of a valid candidate
  has been replaced by exactly one \<open>backend\<close> entry.
\<close>

lemma mergeBackendList_conflict_resolution_if_inserted:
  assumes "store_ok s"
    and "u \<in> set (entries s)" and "source u = Some User"
    and "entry_key u = (listName, patternType, d)"
    and "c \<in> set batch" and "cand_domain c = Some d" and "cand_pattern_type c = Some patternType"
    and "d \<noteq> []" and "patternType \<noteq> []"
    and "patternType = ''domain'' \<longrightarrow> isStrictRegisteredDomain env d"
    and "fst (mergeBackendList env now listName batch s) = Inr ()"
  shows "\<exists>b. filter (\<lambda>e. entry_key e = (listName, patternType, d))
                (entries (snd (mergeBackendList env now listName batch s))) = [b] \<and>
             source b = Some Backend"
proof -
  define new where "new = prepare_entries env now 0 listName batch"
  define added where
    "added = assign_ids (stamp_all (\<lambda>k. now (k + length new)) 0 new) (next_id s)"
  let ?K = "(listName, patternType, d)"
  from assms(11) have dist: "distinct (map entry_key new)"
    unfolding mergeBackendList_result [OF assms(1)] new_def Let_def by (auto split: if_splits)
  then have es: "entries (snd (mergeBackendList env now listName batch s)) =
                   survivors listName batch (entries s) @ added"
    unfolding mergeBackendList_result [OF assms(1)] new_def added_def Let_def by simp
  have ck: "candidate_key listName c = Some ?K"
    using assms(6-9) by (simp add: candidate_key_def)
  have none: "filter (\<lambda>e. entry_key e = ?K) (survivors listName batch (entries s)) = []"
    using assms(5) ck by (rule survivors_no_candidate_key)
  from assms(6-10) obtain ne where ne: "prepare_entry env 0 listName c = Some ne"
    by (auto simp: prepare_entry_def)
  from prepare_entry_Some [OF ne] ck have kne: "entry_key ne = ?K" by simp
  from prepared_has_candidate [OF assms(5) ne, of now 0]
  obtain e where e: "e \<in> set new" and ke: "entry_key e = ?K"
    unfolding new_def using kne by auto
  have "?K \<in> set (map entry_key added)"
    using e ke by (force simp: added_def)
  then obtain b where b: "b \<in> set added" and kb: "entry_key b = ?K" by auto
  have "distinct (map entry_key added)"
    using dist by (simp add: added_def)
  from filter_key_single [OF this b]
  have "filter (\<lambda>e. entry_key e = ?K) added = [b]" by (simp add: kb)
  moreover have "source b = Some Backend"
    using merged_entries_backend [of b _ 0 env now 0 listName batch "next_id s"] b
    by (simp add: added_def new_def)
  ultimately show ?thesis using none by (simp add: es)
qed

text \<open>
  C2. Source preservation. A merge leaves in place, unchanged, every \<open>user\<close> or \<open>generated\<close>
  entry whose key is not the key of a candidate of the batch. With an empty batch it
  succeeds, and the store is the old one without the \<open>backend\<close> entries of the list: every
  other entry is untouched.
\<close>

theorem mergeBackendList_source_preservation:
  assumes "store_ok s"
  shows "(\<forall>e\<in>set (entries s).
            (source e = Some User \<or> source e = Some Generated) \<and>
            (\<forall>c\<in>set batch. candidate_key listName c \<noteq> Some (entry_key e)) \<longrightarrow>
            e \<in> set (entries (snd (mergeBackendList env now listName batch s)))) \<and>
         mergeBackendList env now listName [] s =
           (Inr (), s\<lparr>entries :=
                        filter (\<lambda>e. \<not> (list_name e = listName \<and> source e = Some Backend))
                          (entries s)\<rparr>)"
proof (intro conjI ballI impI)
  fix e
  assume e: "e \<in> set (entries s)"
    and h: "(source e = Some User \<or> source e = Some Generated) \<and>
            (\<forall>c\<in>set batch. candidate_key listName c \<noteq> Some (entry_key e))"
  then have "e \<in> set (survivors listName batch (entries s))"
    by (auto simp: survivors_def)
  then show "e \<in> set (entries (snd (mergeBackendList env now listName batch s)))"
    unfolding mergeBackendList_result [OF assms] Let_def by simp
next
  show "mergeBackendList env now listName [] s =
           (Inr (), s\<lparr>entries :=
                        filter (\<lambda>e. \<not> (list_name e = listName \<and> source e = Some Backend))
                          (entries s)\<rparr>)"
    by (simp add: mergeBackendList_def deleteAllEntriesInList_def)
qed

text \<open>
  C10. Conflict resolution runs before validation. The batch has a \<open>domain\<close> candidate
  whose pattern is not a strict registered domain, and a \<open>user\<close> entry sits at exactly that
  key. The candidate is skipped, the conflict loop has already deleted the entry, and after
  the merge no entry is left at the key.
\<close>

theorem mergeBackendList_deletes_before_validation:
  assumes "store_ok s"
    and "u \<in> set (entries s)" and "source u = Some User"
    and "entry_key u = (listName, ''domain'', d)"
    and "c \<in> set batch" and "cand_domain c = Some d" and "cand_pattern_type c = Some ''domain''"
    and "d \<noteq> []" and "\<not> isStrictRegisteredDomain env d"
  shows "prepare_entry env t listName c = None \<and>
         u \<notin> set (entries (foldl (resolve_conflict listName)
                             (deleteAllEntriesInList listName (Some Backend) s) batch)) \<and>
         filter (\<lambda>e. entry_key e = (listName, ''domain'', d))
           (entries (snd (mergeBackendList env now listName batch s))) = []"
proof (intro conjI)
  let ?K = "(listName, ''domain'', d)"
  have ck: "candidate_key listName c = Some ?K"
    using assms(6-8) by (simp add: candidate_key_def)
  show "prepare_entry env t listName c = None"
    using assms(6-9) by (simp add: prepare_entry_def)
  have none: "filter (\<lambda>e. entry_key e = ?K) (survivors listName batch (entries s)) = []"
    using assms(5) ck by (rule survivors_no_candidate_key)
  then have "u \<notin> set (survivors listName batch (entries s))"
    using assms(4) by (auto simp: filter_empty_conv)
  then show "u \<notin> set (entries (foldl (resolve_conflict listName)
                             (deleteAllEntriesInList listName (Some Backend) s) batch))"
    by (simp add: merge_deletions [OF assms(1)])
  have "entry_key x \<noteq> ?K"
    if "x \<in> set (assign_ids (stamp_all nw j (prepare_entries env now k listName batch)) n)"
    for x nw j k n
    using merged_entries_backend [OF that] assms(9) by (auto simp: entry_key_def)
  then have "filter (\<lambda>e. entry_key e = ?K)
               (assign_ids (stamp_all nw 0 (prepare_entries env now 0 listName batch))
                  (next_id s)) = []" for nw
    by (auto simp: filter_empty_conv)
  with none show "filter (\<lambda>e. entry_key e = ?K)
           (entries (snd (mergeBackendList env now listName batch s))) = []"
    unfolding mergeBackendList_result [OF assms(1)] Let_def by simp
qed

section \<open>Repeating a merge\<close>

lemma entry_key_observed [simp]: "entry_key (observed e) = entry_key e"
  by (simp add: observed_def entry_key_def)

lemma observed_stored [simp]: "observed (stored e i) = observed e"
  by (simp add: observed_def stored_def)

lemma observed_entryWithTimestamps [simp]: "observed (entryWithTimestamps nw i e) = observed e"
  by (simp add: observed_def entryWithTimestamps_def sans_timestamps_def)

lemma map_observed_stamp_all [simp]: "map observed (stamp_all nw j es) = map observed es"
  by (induction es arbitrary: j) auto

lemma map_observed_assign_ids [simp]: "map observed (assign_ids es n) = map observed es"
  by (induction es arbitrary: n) auto










section \<open>The merge at a sample store\<close>

lemmas store_simps =
  sample_store_def sample_entry_def sample_batch_def sample_candidate_def
  store_ok_def entry_key_def candidate_key_def mergeBackendList_def
  deleteAllEntriesInList_def resolve_conflict_def findListEntryByPattern_def
  deleteListEntry_def prepare_entry_def bulkCreateListEntries_def store_add_def
  entryWithTimestamps_def created_at_supplied_def readings_used_def truthy_def
  stored_def empty_metadata_def empty_store_def ticking_def

lemma sample_store_ok: "store_ok sample_store"
  by (simp add: store_simps)



text \<open>
  C1. Conflict resolution: with a \<open>user\<close> entry at a key and a valid candidate at the same
  key in the batch, exactly one entry, of source \<open>backend\<close>, should be at the key after the
  merge. The code misses the case of a batch that names the key twice. The \<open>user\<close> entry
  for \<open>google.com\<close> is in the store; the batch holds the valid candidate \<open>google.com\<close> of
  type \<open>domain\<close> two times. The conflict loop deletes the \<open>user\<close> entry, the batch insert
  fails on the second candidate and takes the first with it, and the merge ends with an
  error and with no entry at the key: the store keeps only the two entries at other keys.
\<close>

theorem mergeBackendList_repeated_candidate_loses_entry:
  "sample_entry ''google.com'' ''domain'' (Some User) 1 \<in> set (entries sample_store) \<and>
   isStrictRegisteredDomain sample_platform ''google.com'' \<and>
   fst (mergeBackendList sample_platform (ticking 2000) ''blocklist''
          [sample_candidate ''google.com'' ''domain'', sample_candidate ''google.com'' ''domain'']
          sample_store) = Inl Failed_to_create_bulk_entry \<and>
   map entry_key
     (entries (snd (mergeBackendList sample_platform (ticking 2000) ''blocklist''
        [sample_candidate ''google.com'' ''domain'', sample_candidate ''google.com'' ''domain'']
        sample_store))) =
     [(''blocklist'', ''domain'', ''mail.google.com''), (''blocklist'', ''host'', ''example.com'')]"
  by (simp add: store_simps sample_simps)

theorem mergeBackendList_source_preservation_witness:
  "store_ok sample_store \<and>
   sample_entry ''example.com'' ''host'' (Some Generated) 4 \<in> set (entries sample_store) \<and>
   sample_entry ''example.com'' ''host'' (Some Generated) 4 \<in>
     set (entries (snd (mergeBackendList sample_platform (ticking 2000) ''blocklist''
                          sample_batch sample_store))) \<and>
   mergeBackendList sample_platform (ticking 2000) ''blocklist'' [] sample_store =
     (Inr (),
      \<lparr>entries = [sample_entry ''google.com'' ''domain'' (Some User) 1,
                  sample_entry ''mail.google.com'' ''domain'' (Some User) 3,
                  sample_entry ''example.com'' ''host'' (Some Generated) 4],
       next_id = 5\<rparr>)"
proof -
  let ?e = "sample_entry ''example.com'' ''host'' (Some Generated) 4"
  note inst = mergeBackendList_source_preservation
               [OF sample_store_ok, of sample_batch "''blocklist''" sample_platform "ticking 2000"]
  have mem: "?e \<in> set (entries sample_store)" by (simp add: sample_store_def)
  have side: "(source ?e = Some User \<or> source ?e = Some Generated) \<and>
              (\<forall>c\<in>set sample_batch. candidate_key ''blocklist'' c \<noteq> Some (entry_key ?e))"
    by (simp add: sample_entry_def sample_batch_def sample_candidate_def candidate_key_def
                  entry_key_def)
  from inst mem side
  have kept: "?e \<in> set (entries (snd (mergeBackendList sample_platform (ticking 2000)
                                         ''blocklist'' sample_batch sample_store)))"
    by blast
  from inst
  have "mergeBackendList sample_platform (ticking 2000) ''blocklist'' [] sample_store =
          (Inr (), sample_store\<lparr>entries :=
                        filter (\<lambda>e. \<not> (list_name e = ''blocklist'' \<and> source e = Some Backend))
                          (entries sample_store)\<rparr>)"
    by blast
  then have "mergeBackendList sample_platform (ticking 2000) ''blocklist'' [] sample_store =
     (Inr (),
      \<lparr>entries = [sample_entry ''google.com'' ''domain'' (Some User) 1,
                  sample_entry ''mail.google.com'' ''domain'' (Some User) 3,
                  sample_entry ''example.com'' ''host'' (Some Generated) 4],
       next_id = 5\<rparr>)"
    by (simp add: sample_store_def sample_entry_def)
  with sample_store_ok mem kept show ?thesis by blast
qed

theorem mergeBackendList_deletes_before_validation_witness:
  "store_ok sample_store \<and>
   sample_entry ''mail.google.com'' ''domain'' (Some User) 3 \<in> set (entries sample_store) \<and>
   \<not> isStrictRegisteredDomain sample_platform ''mail.google.com'' \<and>
   filter (\<lambda>e. entry_key e = (''blocklist'', ''domain'', ''mail.google.com''))
     (entries (snd (mergeBackendList sample_platform (ticking 2000) ''blocklist'' sample_batch
                      sample_store))) = []"
proof -
  let ?u = "sample_entry ''mail.google.com'' ''domain'' (Some User) 3"
  let ?c = "sample_candidate ''mail.google.com'' ''domain''"
  have mem: "?u \<in> set (entries sample_store)" by (simp add: sample_store_def)
  have bad: "\<not> isStrictRegisteredDomain sample_platform ''mail.google.com''"
    by (simp add: sample_simps)
  have "prepare_entry sample_platform 2000 ''blocklist'' ?c = None \<and>
        ?u \<notin> set (entries (foldl (resolve_conflict ''blocklist'')
                     (deleteAllEntriesInList ''blocklist'' (Some Backend) sample_store)
                     sample_batch)) \<and>
        filter (\<lambda>e. entry_key e = (''blocklist'', ''domain'', ''mail.google.com''))
          (entries (snd (mergeBackendList sample_platform (ticking 2000) ''blocklist''
                           sample_batch sample_store))) = []"
  proof (rule mergeBackendList_deletes_before_validation [where u = ?u and c = ?c])
    show "store_ok sample_store" by (rule sample_store_ok)
    show "?u \<in> set (entries sample_store)" by (rule mem)
    show "source ?u = Some User" by (simp add: sample_entry_def)
    show "entry_key ?u = (''blocklist'', ''domain'', ''mail.google.com'')"
      by (simp add: sample_entry_def entry_key_def)
    show "?c \<in> set sample_batch" by (simp add: sample_batch_def)
    show "cand_domain ?c = Some ''mail.google.com''" by (simp add: sample_candidate_def)
    show "cand_pattern_type ?c = Some ''domain''" by (simp add: sample_candidate_def)
    show "''mail.google.com'' \<noteq> []" by simp
    show "\<not> isStrictRegisteredDomain sample_platform ''mail.google.com''" by (rule bad)
  qed
  with sample_store_ok mem bad show ?thesis by blast
qed



section \<open>Insert paths and domain strictness\<close>

lemma createListEntry_rejects_invalid_domain:
  "pattern_type e = ''domain'' \<Longrightarrow> \<not> isStrictRegisteredDomain env (domain e) \<Longrightarrow>
     createListEntry env now e s = (Inl (Invalid_domain_pattern (domain e)), s)"
  by (simp add: createListEntry_def)

lemma updateListEntry_rejects_invalid_domain:
  assumes "find (\<lambda>e. entry_id e = i) (entries s) = Some entry"
    and "(case upd_pattern_type updates of Some t \<Rightarrow> t | None \<Rightarrow> pattern_type entry) = ''domain''"
    and "\<not> isStrictRegisteredDomain env
             (case upd_domain updates of Some d \<Rightarrow> d | None \<Rightarrow> domain entry)"
  shows "updateListEntry env now i updates s =
           (Inl (Invalid_domain_pattern
                   (case upd_domain updates of Some d \<Rightarrow> d | None \<Rightarrow> domain entry)), s)"
  using assms by (simp add: updateListEntry_def Let_def)

lemma createListEntry_accepts_valid_domain:
  assumes "pattern_type e = ''domain''" and "isStrictRegisteredDomain env (domain e)"
    and "entry_key e \<notin> set (map entry_key (entries s))"
  shows "createListEntry env now e s =
           (Inr (next_id s),
            s\<lparr>entries := entries s @ [stored (entryWithTimestamps now 0 e) (next_id s)],
              next_id := Suc (next_id s)\<rparr>)"
  using assms by (simp add: createListEntry_def store_add_def)

text \<open>
  C3. Domain strictness on every insert path. \<open>createListEntry\<close> and \<open>updateListEntry\<close>
  reject a \<open>domain\<close> entry whose pattern is not its own registrable domain, as the
  lemmas above show. \<open>bulkCreateListEntries\<close> makes no such check: at the entry
  \<open>mail.google.com\<close> of type \<open>domain\<close>, which the single insert rejects, the batch insert
  succeeds and the entry is in the store.
\<close>

theorem bulkCreateListEntries_persists_subdomain_pattern:
  "\<not> isStrictRegisteredDomain sample_platform ''mail.google.com'' \<and>
   createListEntry sample_platform (ticking 1000)
     \<lparr>list_name = ''blocklist'', domain = ''mail.google.com'', pattern_type = ''domain'',
      source = Some User, metadata = empty_metadata\<rparr> empty_store =
     (Inl (Invalid_domain_pattern ''mail.google.com''), empty_store) \<and>
   fst (bulkCreateListEntries (ticking 1000)
     [\<lparr>list_name = ''blocklist'', domain = ''mail.google.com'', pattern_type = ''domain'',
       source = Some User, metadata = empty_metadata\<rparr>] empty_store) = Inr [1] \<and>
   map pattern_type
     (entries (snd (bulkCreateListEntries (ticking 1000)
        [\<lparr>list_name = ''blocklist'', domain = ''mail.google.com'', pattern_type = ''domain'',
          source = Some User, metadata = empty_metadata\<rparr>] empty_store))) = [''domain''] \<and>
   map domain
     (entries (snd (bulkCreateListEntries (ticking 1000)
        [\<lparr>list_name = ''blocklist'', domain = ''mail.google.com'', pattern_type = ''domain'',
          source = Some User, metadata = empty_metadata\<rparr>] empty_store))) =
     [''mail.google.com'']"
  by (simp add: createListEntry_def store_simps sample_simps)

section \<open>Import\<close>








section \<open>Timestamps\<close>

text \<open>
  C7, as stated, fails: a \<open>created_at\<close> that the caller supplies is stored as it is, so one
  later than the clock ends above \<open>updated_at\<close>; \<open>updateListEntry\<close> honours a
  \<open>created_at\<close> of \<open>updates.metadata\<close> as well, and one that holds \<open>undefined\<close> leaves the
  entry without a \<open>created_at\<close>.
\<close>

theorem timestamps_counterexample:
  "map (created_at \<circ> metadata)
     (entries (snd (createListEntry sample_platform (ticking 1000)
        \<lparr>list_name = ''blocklist'', domain = ''google.com'', pattern_type = ''domain'',
         source = Some User,
         metadata = empty_metadata\<lparr>created_at := Present (Number 2000)\<rparr>\<rparr>
        empty_store))) = [Present (Number 2000)] \<and>
   map (updated_at \<circ> metadata)
     (entries (snd (createListEntry sample_platform (ticking 1000)
        \<lparr>list_name = ''blocklist'', domain = ''google.com'', pattern_type = ''domain'',
         source = Some User,
         metadata = empty_metadata\<lparr>created_at := Present (Number 2000)\<rparr>\<rparr>
        empty_store))) = [Present (Number 1000)] \<and>
   map (created_at \<circ> metadata)
     (entries (snd (updateListEntry sample_platform (ticking 3000) 4
        \<lparr>upd_list_name = None, upd_domain = None, upd_pattern_type = None, upd_source = None,
         upd_metadata = Some (empty_metadata\<lparr>created_at := Present (Number 5000)\<rparr>)\<rparr>
        sample_store))) =
     [Present (Number 1000), Present (Number 1000), Present (Number 1000),
      Present (Number 5000)] \<and>
   map (updated_at \<circ> metadata)
     (entries (snd (updateListEntry sample_platform (ticking 3000) 4
        \<lparr>upd_list_name = None, upd_domain = None, upd_pattern_type = None, upd_source = None,
         upd_metadata = Some (empty_metadata\<lparr>created_at := Present (Number 5000)\<rparr>)\<rparr>
        sample_store))) =
     [Present (Number 1000), Present (Number 1000), Present (Number 1000),
      Present (Number 3000)] \<and>
   map (created_at \<circ> metadata)
     (entries (snd (updateListEntry sample_platform (ticking 3000) 4
        \<lparr>upd_list_name = None, upd_domain = None, upd_pattern_type = None, upd_source = None,
         upd_metadata = Some (empty_metadata\<lparr>created_at := Undefined\<rparr>)\<rparr>
        sample_store))) =
     [Present (Number 1000), Present (Number 1000), Present (Number 1000), Undefined]"
  by (simp add: createListEntry_def updateListEntry_def store_put_def spread_def
                spread_property_def store_simps sample_simps)

lemma js_le_trans: "js_le a b \<Longrightarrow> js_le b c \<Longrightarrow> js_le a c"
  by (cases a; cases b; cases c) auto

lemma js_le_Number_mono: "js_le c (Number (real_of_int a)) \<Longrightarrow> a \<le> b \<Longrightarrow> js_le c (Number (real_of_int b))"
  by (cases c) auto

lemma timestamps_ok_entryWithTimestamps:
  assumes "supplied_created_at_ok now (metadata e)" and "mono now"
  shows "timestamps_ok (stored (entryWithTimestamps now k e) i)"
proof (cases "created_at_supplied e")
  case True
  then obtain c where c: "created_at (metadata e) = Present c" "truthy c"
    by (auto simp: created_at_supplied_def split: property.splits)
  with assms(1) have "js_le c (Number (real_of_int (now 0)))"
    by (simp add: supplied_created_at_ok_def)
  moreover from assms(2) have "now 0 \<le> now k" by (simp add: monoD)
  ultimately have "js_le c (Number (real_of_int (now k)))" by (rule js_le_Number_mono)
  with True c show ?thesis
    by (simp add: timestamps_ok_def entryWithTimestamps_def stored_def)
next
  case False
  from assms(2) have "now k \<le> now (Suc k)" by (simp add: monoD)
  with False show ?thesis
    by (simp add: timestamps_ok_def entryWithTimestamps_def stored_def)
qed

lemma timestamps_ok_assign_ids:
  "list_all (\<lambda>e. supplied_created_at_ok now (metadata e)) es \<Longrightarrow> mono now \<Longrightarrow>
     list_all timestamps_ok (assign_ids (stamp_all now k es) n)"
  by (induction es arbitrary: k n) (auto simp: timestamps_ok_entryWithTimestamps)

lemma createListEntry_timestamps:
  assumes "list_all timestamps_ok (entries s)" and "mono now"
    and "supplied_created_at_ok now (metadata e)"
  shows "list_all timestamps_ok (entries (snd (createListEntry env now e s)))"
  using assms
  by (auto simp: createListEntry_def store_add_def timestamps_ok_entryWithTimestamps)

lemma bulkCreateListEntries_timestamps:
  assumes "list_all timestamps_ok (entries s)" and "mono now"
    and "list_all (\<lambda>e. supplied_created_at_ok now (metadata e)) es"
  shows "list_all timestamps_ok (entries (snd (bulkCreateListEntries now es s)))"
proof (cases "add_all (stamp_all now 0 es) s")
  case None
  with assms(1) show ?thesis by (simp add: bulkCreateListEntries_def)
next
  case (Some p)
  then obtain ids s' where a: "add_all (stamp_all now 0 es) s = Some (ids, s')"
    by (cases p) auto
  from add_all_Some [OF a] assms(1) timestamps_ok_assign_ids [OF assms(3) assms(2)] a
  show ?thesis by (simp add: bulkCreateListEntries_def)
qed

lemma updateListEntry_timestamps:
  assumes "list_all timestamps_ok (entries s)"
    and "list_all (\<lambda>x. entry_id x = i \<longrightarrow>
                    (case updated_at (metadata x) of
                       Absent \<Rightarrow> False
                     | Undefined \<Rightarrow> False
                     | Present u \<Rightarrow> js_le u (Number (real_of_int (now 0)))))
           (entries s)"
    and "updated_created_at_ok now updates"
  shows "list_all timestamps_ok (entries (snd (updateListEntry env now i updates s)))"
proof (cases "find (\<lambda>e. entry_id e = i) (entries s)")
  case None
  with assms(1) show ?thesis by (simp add: updateListEntry_def)
next
  case (Some entry)
  then have mem: "entry \<in> set (entries s)" and eid: "entry_id entry = i"
    using find_Some_mem [of "\<lambda>e. entry_id e = i" "entries s" entry] by simp_all
  from mem assms(1) have t: "timestamps_ok entry" by (simp add: list_all_iff)
  from mem eid assms(2)
  have "case updated_at (metadata entry) of
          Absent \<Rightarrow> False
        | Undefined \<Rightarrow> False
        | Present u \<Rightarrow> js_le u (Number (real_of_int (now 0)))"
    by (auto simp: list_all_iff)
  then obtain u where u: "updated_at (metadata entry) = Present u"
      "js_le u (Number (real_of_int (now 0)))"
    by (cases "updated_at (metadata entry)") auto
  from t u obtain c0 where c0: "created_at (metadata entry) = Present c0" "js_le c0 u"
    by (auto simp: timestamps_ok_def split: property.splits)
  from c0(2) u(2) have old: "js_le c0 (Number (real_of_int (now 0)))" by (rule js_le_trans)
  define m where
    "m = (spread (metadata entry)
            (case upd_metadata updates of Some m \<Rightarrow> m | None \<Rightarrow> empty_metadata))
         \<lparr>updated_at := Present (Number (real_of_int (now 0)))\<rparr>"
  have "\<exists>c. created_at m = Present c \<and> js_le c (Number (real_of_int (now 0)))"
    using c0(1) old assms(3)
    by (auto simp: m_def spread_def spread_property_def updated_created_at_ok_def
                   empty_metadata_def
             split: option.splits property.splits)
  then have ok: "timestamps_ok \<lparr>list_name = l, domain = d, pattern_type = p, source = src,
                                metadata = m, entry_id = i\<rparr>" for l d p src
    by (auto simp: timestamps_ok_def m_def)
  show ?thesis
    using Some assms(1) ok
    by (auto simp: updateListEntry_def Let_def store_put_def m_def [symmetric] list_all_iff
             split: option.splits if_splits)
qed

lemma createListEntry_stamps:
  assumes "createListEntry env now e s = (Inr j, s')"
  shows "\<exists>x. entries s' = entries s @ [x] \<and> entry_id x = j \<and>
             (case created_at (metadata e) of
                Absent \<Rightarrow>
                  created_at (metadata x) = Present (Number (real_of_int (now 0))) \<and>
                  updated_at (metadata x) = Present (Number (real_of_int (now 1)))
              | Undefined \<Rightarrow>
                  created_at (metadata x) = Present (Number (real_of_int (now 0))) \<and>
                  updated_at (metadata x) = Present (Number (real_of_int (now 1)))
              | Present c \<Rightarrow>
                  if c = NaN \<or> c = Number 0
                  then created_at (metadata x) = Present (Number (real_of_int (now 0))) \<and>
                       updated_at (metadata x) = Present (Number (real_of_int (now 1)))
                  else created_at (metadata x) = Present c \<and>
                       updated_at (metadata x) = Present (Number (real_of_int (now 0))))"
  using assms
  by (auto simp: createListEntry_def store_add_def stored_def entryWithTimestamps_def
                 created_at_supplied_def truthy_def
           split: if_splits property.splits)

text \<open>
  C7, amended. Every write path keeps \<open>created_at \<le> updated_at\<close>, both of them numbers, on
  all entries of the store, provided that the clock does not run backwards within the call,
  that a truthy \<open>created_at\<close> which the caller supplies at creation is not later than the
  first clock reading of the call, that \<open>updates.metadata\<close> has no \<open>created_at\<close> property or
  one holding a number not later than the clock reading of the update, and that this
  reading is not earlier than the \<open>updated_at\<close> of the entry that is updated.
  \<open>createListEntry\<close> stores the caller's \<open>created_at\<close> if it is truthy and stamps
  \<open>updated_at\<close> with the first clock reading; otherwise it stamps \<open>created_at\<close> with the
  first reading and \<open>updated_at\<close> with the second.
\<close>

theorem write_paths_order_timestamps:
  assumes "list_all timestamps_ok (entries s)" and "mono now"
  shows "(supplied_created_at_ok now (metadata e) \<longrightarrow>
            list_all timestamps_ok (entries (snd (createListEntry env now e s)))) \<and>
         (list_all (\<lambda>e. supplied_created_at_ok now (metadata e)) es \<longrightarrow>
            list_all timestamps_ok (entries (snd (bulkCreateListEntries now es s)))) \<and>
         (list_all (\<lambda>x. entry_id x = i \<longrightarrow>
                      (case updated_at (metadata x) of
                         Absent \<Rightarrow> False
                       | Undefined \<Rightarrow> False
                       | Present u \<Rightarrow> js_le u (Number (real_of_int (now 0)))))
            (entries s) \<and>
          updated_created_at_ok now updates \<longrightarrow>
            list_all timestamps_ok (entries (snd (updateListEntry env now i updates s)))) \<and>
         (createListEntry env now e s = (Inr j, s') \<longrightarrow>
            (\<exists>x. entries s' = entries s @ [x] \<and> entry_id x = j \<and>
               (case created_at (metadata e) of
                  Absent \<Rightarrow>
                    created_at (metadata x) = Present (Number (real_of_int (now 0))) \<and>
                    updated_at (metadata x) = Present (Number (real_of_int (now 1)))
                | Undefined \<Rightarrow>
                    created_at (metadata x) = Present (Number (real_of_int (now 0))) \<and>
                    updated_at (metadata x) = Present (Number (real_of_int (now 1)))
                | Present c \<Rightarrow>
                    if c = NaN \<or> c = Number 0
                    then created_at (metadata x) = Present (Number (real_of_int (now 0))) \<and>
                         updated_at (metadata x) = Present (Number (real_of_int (now 1)))
                    else created_at (metadata x) = Present c \<and>
                         updated_at (metadata x) = Present (Number (real_of_int (now 0))))))"
  using createListEntry_timestamps [OF assms] bulkCreateListEntries_timestamps [OF assms]
        updateListEntry_timestamps [OF assms(1)] createListEntry_stamps
  by blast

lemma sample_store_timestamps: "list_all timestamps_ok (entries sample_store)"
  by (simp add: sample_store_def sample_entry_def timestamps_ok_def empty_metadata_def)

lemma mono_ticking: "mono (ticking t)"
  by (simp add: mono_def ticking_def)

theorem write_paths_order_timestamps_witness:
  "list_all timestamps_ok (entries sample_store) \<and> mono (ticking 2000) \<and>
   list_all timestamps_ok
     (entries (snd (createListEntry sample_platform (ticking 2000)
        \<lparr>list_name = ''blocklist'', domain = ''new.com'', pattern_type = ''host'',
         source = Some User,
         metadata = empty_metadata\<lparr>created_at := Present (Number 1500)\<rparr>\<rparr> sample_store))) \<and>
   list_all timestamps_ok
     (entries (snd (bulkCreateListEntries (ticking 2000)
        [\<lparr>list_name = ''allowlist'', domain = ''https://a.example/'', pattern_type = ''exact_url'',
          source = Some User, metadata = empty_metadata\<rparr>] sample_store))) \<and>
   list_all timestamps_ok
     (entries (snd (updateListEntry sample_platform (ticking 2000) 4
        \<lparr>upd_list_name = None, upd_domain = Some ''example.org'', upd_pattern_type = None,
         upd_source = None, upd_metadata = None\<rparr> sample_store))) \<and>
   (\<exists>x. entries (snd (createListEntry sample_platform (ticking 2000)
        \<lparr>list_name = ''blocklist'', domain = ''new.com'', pattern_type = ''host'',
         source = Some User,
         metadata = empty_metadata\<lparr>created_at := Present (Number 1500)\<rparr>\<rparr> sample_store)) =
          entries sample_store @ [x] \<and>
        entry_id x = 5 \<and> created_at (metadata x) = Present (Number 1500) \<and>
        updated_at (metadata x) = Present (Number 2000))"
proof -
  let ?e = "\<lparr>list_name = ''blocklist'', domain = ''new.com'', pattern_type = ''host'',
             source = Some User,
             metadata = empty_metadata\<lparr>created_at := Present (Number 1500)\<rparr>\<rparr>"
  let ?b = "\<lparr>list_name = ''allowlist'', domain = ''https://a.example/'',
             pattern_type = ''exact_url'',
             source = Some User, metadata = empty_metadata\<rparr>"
  let ?upd = "\<lparr>upd_list_name = None, upd_domain = Some ''example.org'', upd_pattern_type = None,
               upd_source = None, upd_metadata = None\<rparr>"
  let ?run = "createListEntry sample_platform (ticking 2000) ?e sample_store"
  note inst = write_paths_order_timestamps [OF sample_store_timestamps mono_ticking,
                  of 2000 ?e sample_platform "[?b]" 4 ?upd 5 "snd ?run"]
  have "fst ?run = Inr 5"
    by (simp add: createListEntry_def store_simps sample_simps)
  then have run: "?run = (Inr 5, snd ?run)" by (metis prod.collapse)
  from inst run
  have stamped: "\<exists>x. entries (snd ?run) = entries sample_store @ [x] \<and> entry_id x = 5 \<and>
               (case created_at (metadata ?e) of
                  Absent \<Rightarrow>
                    created_at (metadata x) = Present (Number (real_of_int (ticking 2000 0))) \<and>
                    updated_at (metadata x) = Present (Number (real_of_int (ticking 2000 1)))
                | Undefined \<Rightarrow>
                    created_at (metadata x) = Present (Number (real_of_int (ticking 2000 0))) \<and>
                    updated_at (metadata x) = Present (Number (real_of_int (ticking 2000 1)))
                | Present c \<Rightarrow>
                    if c = NaN \<or> c = Number 0
                    then created_at (metadata x) = Present (Number (real_of_int (ticking 2000 0))) \<and>
                         updated_at (metadata x) = Present (Number (real_of_int (ticking 2000 1)))
                    else created_at (metadata x) = Present c \<and>
                         updated_at (metadata x) = Present (Number (real_of_int (ticking 2000 0))))"
    by blast
  then have stamped': "\<exists>x. entries (snd ?run) = entries sample_store @ [x] \<and>
             entry_id x = 5 \<and> created_at (metadata x) = Present (Number 1500) \<and>
             updated_at (metadata x) = Present (Number 2000)"
    by (simp add: empty_metadata_def ticking_def)
  have a: "supplied_created_at_ok (ticking 2000) (metadata ?e)"
    by (simp add: supplied_created_at_ok_def empty_metadata_def ticking_def)
  have b: "list_all (\<lambda>e. supplied_created_at_ok (ticking 2000) (metadata e)) [?b]"
    by (simp add: supplied_created_at_ok_def empty_metadata_def)
  have c: "list_all (\<lambda>x. entry_id x = 4 \<longrightarrow>
                      (case updated_at (metadata x) of
                         Absent \<Rightarrow> False
                       | Undefined \<Rightarrow> False
                       | Present u \<Rightarrow> js_le u (Number (real_of_int (ticking 2000 0)))))
            (entries sample_store)"
    by (simp add: sample_store_def sample_entry_def empty_metadata_def ticking_def)
  have d: "updated_created_at_ok (ticking 2000) ?upd"
    by (simp add: updated_created_at_ok_def)
  from inst a b c d sample_store_timestamps mono_ticking [of 2000] stamped' show ?thesis
    by blast
qed

section \<open>The unique indexes hold after every write path\<close>

lemma store_ok_store_add:
  assumes "store_ok s" and "store_add e s = Some (i, s')"
  shows "store_ok s'"
proof -
  from assms(2) have "add_all [e] s = Some ([i], s')" by simp
  with assms(1) show ?thesis by (rule store_ok_add_all)
qed

lemma store_ok_createListEntry:
  "store_ok s \<Longrightarrow> store_ok (snd (createListEntry env now e s))"
  using store_ok_store_add
  by (auto simp: createListEntry_def split: option.splits)

lemma store_ok_bulkCreateListEntries:
  "store_ok s \<Longrightarrow> store_ok (snd (bulkCreateListEntries now es s))"
  using store_ok_add_all
  by (auto simp: bulkCreateListEntries_def split: option.splits)

lemma store_ok_importList:
  assumes "store_ok s"
  shows "store_ok (snd (importList now listName importData s))"
proof (cases importData)
  case (Entries_array file_entries)
  define es where "es = map (imported_entry listName) (map the file_entries)"
  define s1 where "s1 = deleteAllEntriesInList listName None s"
  have s1: "store_ok s1" unfolding s1_def using assms by (rule store_ok_deleteAllEntriesInList)
  then have "store_ok (snd (bulkCreateListEntries now es s1))"
    by (rule store_ok_bulkCreateListEntries)
  moreover have "snd (importList now listName importData s) =
                 (if None \<in> set file_entries then s1
                  else snd (bulkCreateListEntries now es s1))"
    by (auto simp: Entries_array importList_def Let_def es_def s1_def
             split: prod.splits sum.splits)
  ultimately show ?thesis using s1 by simp
qed (use assms in \<open>simp_all add: importList_def\<close>)

lemma distinct_map_replace:
  assumes "distinct (map f xs)" and "\<forall>x\<in>set xs. \<not> P x \<longrightarrow> f x \<noteq> f e"
    and "\<forall>x\<in>set xs. \<forall>y\<in>set xs. P x \<and> P y \<longrightarrow> x = y"
  shows "distinct (map f (map (\<lambda>x. if P x then e else x) xs))"
  using assms
proof (induction xs)
  case Nil
  then show ?case by simp
next
  case (Cons a xs)
  then have IH: "distinct (map f (map (\<lambda>x. if P x then e else x) xs))" by simp
  show ?case
  proof (cases "P a")
    case True
    with Cons.prems(1,3) have "\<forall>x\<in>set xs. \<not> P x" by auto
    with Cons.prems(2) True IH show ?thesis by (auto simp: image_iff)
  next
    case False
    with Cons.prems IH show ?thesis by (auto simp: image_iff)
  qed
qed

lemma store_ok_store_put:
  assumes "store_ok s" and "store_put e s = Some s'" and "entry_id e < next_id s"
  shows "store_ok s'"
proof -
  from assms(2) have free: "\<forall>x\<in>set (entries s). entry_id x \<noteq> entry_id e \<longrightarrow> entry_key x \<noteq> entry_key e"
    and s': "s' = s\<lparr>entries := map (\<lambda>x. if entry_id x = entry_id e then e else x) (entries s)\<rparr>"
    by (auto simp: store_put_def list_ex_iff split: if_splits)
  from assms(1) have d1: "distinct (map entry_id (entries s))"
    and d2: "distinct (map entry_key (entries s))"
    and lt: "\<forall>x\<in>set (entries s). entry_id x < next_id s"
    by (simp_all add: store_ok_def list_all_iff)
  have one: "\<forall>x\<in>set (entries s). \<forall>y\<in>set (entries s).
               entry_id x = entry_id e \<and> entry_id y = entry_id e \<longrightarrow> x = y"
    using distinct_map_eq [OF d1] by metis
  have "map entry_id (map (\<lambda>x. if entry_id x = entry_id e then e else x) xs) =
        map entry_id xs" for xs
    by (induction xs) auto
  then have "map entry_id (entries s') = map entry_id (entries s)" unfolding s' by simp
  then have "distinct (map entry_id (entries s'))" using d1 by (simp only:)
  moreover have "distinct (map entry_key (entries s'))"
    unfolding s' using distinct_map_replace [OF d2 free one] by simp
  moreover have "\<forall>x\<in>set (entries s'). entry_id x < next_id s'"
    using lt assms(3) by (auto simp: s')
  ultimately show ?thesis by (simp add: store_ok_def list_all_iff)
qed

lemma store_ok_updateListEntry:
  assumes "store_ok s"
  shows "store_ok (snd (updateListEntry env now i updates s))"
proof (cases "find (\<lambda>e. entry_id e = i) (entries s)")
  case None
  with assms show ?thesis by (simp add: updateListEntry_def)
next
  case (Some entry)
  then have "entry \<in> set (entries s)" "entry_id entry = i"
    using find_Some_mem [of "\<lambda>e. entry_id e = i" "entries s" entry] by simp_all
  with assms have "i < next_id s" by (auto simp: store_ok_def list_all_iff)
  with Some assms show ?thesis
    using store_ok_store_put [OF assms]
    by (auto simp: updateListEntry_def Let_def split: option.splits)
qed

end
